theory Spec2Isabelle
  imports Main
begin

section \<open>JavaScript values\<close>

text \<open>
  The values that flow through \<open>src/stores/GroupStore.js\<close>: group identifiers, backend
  responses, failures, the summary object. Numbers are the integer-valued ones (an HTTP
  status). \<open>JObj\<close> carries the own properties of an ordinary object, first entry of a
  name first. \<open>JBuiltin n\<close> is the member \<open>n\<close> of \<open>Object.prototype\<close>, which every
  ordinary object inherits.
\<close>

datatype jsval =
    JUndefined
  | JNull
  | JBool bool
  | JNum int
  | JStr string
  | JArr "jsval list"
  | JObj "(string \<times> jsval) list"
  | JBuiltin string

text \<open>The conversion to a boolean that \<open>!x\<close> and \<open>c ? a : b\<close> apply.\<close>

fun truthy :: "jsval \<Rightarrow> bool" where
  "truthy JUndefined = False"
| "truthy JNull = False"
| "truthy (JBool b) = b"
| "truthy (JNum n) = (n \<noteq> 0)"
| "truthy (JStr s) = (s \<noteq> [])"
| "truthy (JArr xs) = True"
| "truthy (JObj ps) = True"
| "truthy (JBuiltin n) = True"

text \<open>The names that \<open>{}\<close> answers to without having them as own properties.\<close>

definition object_prototype_keys :: "string list" where
  "object_prototype_keys =
     [''constructor'', ''__defineGetter__'', ''__defineSetter__'', ''hasOwnProperty'',
      ''__lookupGetter__'', ''__lookupSetter__'', ''isPrototypeOf'',
      ''propertyIsEnumerable'', ''toString'', ''valueOf'', ''__proto__'',
      ''toLocaleString'']"

definition inherited :: "string \<Rightarrow> jsval" where
  "inherited k = (if k \<in> set object_prototype_keys then JBuiltin k else JUndefined)"

text \<open>\<open>o[k]\<close> on an ordinary object with own properties \<open>ps\<close>.\<close>

definition lookup_prop :: "(string \<times> jsval) list \<Rightarrow> string \<Rightarrow> jsval" where
  "lookup_prop ps k = (case map_of ps k of Some v \<Rightarrow> v | None \<Rightarrow> inherited k)"

text \<open>\<open>o[k] = v\<close> on an ordinary object with own properties \<open>ps\<close>.\<close>

fun set_prop :: "(string \<times> jsval) list \<Rightarrow> string \<Rightarrow> jsval \<Rightarrow> (string \<times> jsval) list" where
  "set_prop [] k v = [(k, v)]"
| "set_prop ((k', v') # ps) k v =
     (if k' = k then (k, v) # ps else (k', v') # set_prop ps k v)"

definition type_error :: jsval where
  "type_error = JObj [(''name'', JStr ''TypeError'')]"

text \<open>
  \<open>x.k\<close> on any value; \<open>Inl\<close> is the value thrown. Reading a property of \<open>undefined\<close>
  or \<open>null\<close> throws a TypeError. The members that strings, arrays and functions have
  beyond those of \<open>Object.prototype\<close> (\<open>length\<close>, ...) are left out: the store reads
  \<open>user\<close>, \<open>is_publicised\<close>, \<open>is_privileged\<close>, \<open>chunk\<close> and \<open>httpStatus\<close> only.
\<close>

fun get_prop :: "jsval \<Rightarrow> string \<Rightarrow> jsval + jsval" where
  "get_prop JUndefined k = Inl type_error"
| "get_prop JNull k = Inl type_error"
| "get_prop (JObj ps) k = Inr (lookup_prop ps k)"
| "get_prop (JBool b) k = Inr (inherited k)"
| "get_prop (JNum n) k = Inr (inherited k)"
| "get_prop (JStr s) k = Inr (inherited k)"
| "get_prop (JArr xs) k = Inr (inherited k)"
| "get_prop (JBuiltin n) k = Inr (inherited k)"

section \<open>The store and its collaborators\<close>

text \<open>
  The two projections imported from \<open>../groups\<close> are not part of the file; they are
  parameters of the model.
\<close>

record groups =
  groupMemberFromApiObject :: "jsval \<Rightarrow> jsval"
  groupRoomFromApiObject :: "jsval \<Rightarrow> jsval"

text \<open>Of the client object the store reads \<open>credentials.userId\<close> and calls methods.\<close>

record client =
  credentials_userId :: jsval

text \<open>A method call on \<open>this._matrixClient\<close>, with its arguments.\<close>

datatype client_call =
    GetGroupUsers jsval
  | GetGroupInvitedUsers jsval
  | GetGroupSummary jsval
  | GetGroupRooms jsval
  | AddRoomToGroup jsval jsval jsval
  | UpdateGroupRoomVisibility jsval jsval jsval
  | RemoveRoomFromGroup jsval jsval
  | InviteUserToGroup jsval jsval
  | AcceptGroupInvite jsval
  | AddRoomToGroupSummary jsval jsval jsval
  | AddUserToGroupSummary jsval jsval jsval
  | RemoveRoomFromGroupSummary jsval jsval
  | RemoveUserFromGroupSummary jsval jsval
  | SetGroupPublicity jsval jsval

datatype event = Update | Error jsval

text \<open>
  What the store does to the outside, in the order in which it does it: a call of a client
  method (with the number of the promise that the call returns), \<open>this.emit\<close>, the
  call of one subscribed callback (by the number that names it), \<open>console.error\<close>,
  \<open>FlairStore.invalidatePublicisedGroups\<close>, and a rejection that nothing handles.
\<close>

datatype effect =
    Request nat client_call
  | Emit event
  | Invoke nat
  | ConsoleError "jsval list"
  | InvalidatePublicisedGroups jsval
  | UnhandledRejection jsval

text \<open>\<open>GroupStore.STATE_KEY\<close>.\<close>

datatype slice = GroupMembers | GroupInvitedMembers | Summary | GroupRooms

fun STATE_KEY :: "slice \<Rightarrow> string" where
  "STATE_KEY GroupMembers = ''GroupMembers''"
| "STATE_KEY GroupInvitedMembers = ''GroupInvitedMembers''"
| "STATE_KEY Summary = ''Summary''"
| "STATE_KEY GroupRooms = ''GroupRooms''"

text \<open>
  The callbacks that the mutations pass to \<open>then\<close>: the three bound fetch methods and
  the arrow function of \<open>setGroupPublicity\<close>.
\<close>

datatype callback = FetchRooms | FetchSummary | FetchMembers | InvalidateFlair

text \<open>
  What is attached to the promise of a client call: the \<open>then\<close>/\<open>catch\<close> pair of the
  fetch of one slice, or the chain of \<open>then\<close> callbacks of a mutation.
\<close>

datatype reaction = OnFetch slice | OnMutation "callback list"

datatype outcome = Resolved jsval | Rejected jsval

text \<open>What a subscribed callback can read of the store, through its accessors, when it is called.\<close>

record view =
  seen_summary :: jsval
  seen_rooms :: "jsval list"
  seen_members :: "jsval list"
  seen_invitedMembers :: "jsval list"
  seen_ready :: "(string \<times> jsval) list"

text \<open>
  A callback passed to \<open>registerListener\<close>: the number that names the function object,
  and what a call of it does, given what it reads of the store: it returns normally
  (\<open>None\<close>) or it throws a value. A callback calls none of the methods that change the
  store.
\<close>

datatype listener = Listener (callback_id: nat) (behaviour: "view \<Rightarrow> jsval option")

text \<open>
  The fields of the store object (\<open>_summary\<close> is \<open>summary\<close>, and so on; \<open>listeners\<close>
  are the callbacks subscribed to "update", in the order of their registration), and
  the run-time state around it: the client promises that are not settled yet with what is
  attached to them, the next promise number, the state of the promises that the
  mutations have returned (no entry: still pending), and the effects so far.
\<close>

record groupStore =
  groupId :: jsval
  matrixClient :: client
  summary :: jsval
  rooms :: "jsval list"
  members :: "jsval list"
  invitedMembers :: "jsval list"
  ready :: "(string \<times> jsval) list"
  listeners :: "listener list"
  pending :: "nat \<rightharpoonup> reaction"
  next_id :: nat
  signals :: "nat \<rightharpoonup> outcome"
  trace :: "effect list"

definition construction_error :: jsval where
  "construction_error =
     JObj [(''message'', JStr ''GroupStore needs a valid groupId to be created'')]"

definition initial :: "client \<Rightarrow> jsval \<Rightarrow> groupStore" where
  "initial mc gid =
     \<lparr>groupId = gid, matrixClient = mc, summary = JObj [], rooms = [], members = [],
      invitedMembers = [], ready = [], listeners = [], pending = Map.empty, next_id = 0,
      signals = Map.empty, trace = []\<rparr>"

definition constructor :: "client \<Rightarrow> jsval \<Rightarrow> jsval + groupStore" where
  "constructor mc gid =
     (if \<not> truthy gid then Inl construction_error else Inr (initial mc gid))"

subsection \<open>Events\<close>

definition view_of :: "groupStore \<Rightarrow> view" where
  "view_of s =
     \<lparr>seen_summary = summary s, seen_rooms = rooms s, seen_members = members s,
      seen_invitedMembers = invitedMembers s, seen_ready = ready s\<rparr>"

text \<open>
  A method of the store that can throw after it has changed the store: \<open>Inl (e, s)\<close> is
  the value thrown and the store as the call leaves it, \<open>Inr s\<close> the store after a normal
  return.
\<close>

type_synonym completion = "jsval \<times> groupStore + groupStore"

definition store_after :: "completion \<Rightarrow> groupStore" where
  "store_after r = (case r of Inl (e, s) \<Rightarrow> s | Inr s \<Rightarrow> s)"

definition thrown_by :: "completion \<Rightarrow> jsval option" where
  "thrown_by r = (case r of Inl (e, s) \<Rightarrow> Some e | Inr s \<Rightarrow> None)"

text \<open>
  \<open>emit\<close> calls the subscribed callbacks one after the other, in the order of their
  registration, with nothing to catch what they throw: the first callback that throws ends
  the delivery, and its value leaves \<open>emit\<close>. The result is the calls made and the value
  thrown, if any.
\<close>

fun deliver :: "listener list \<Rightarrow> view \<Rightarrow> effect list \<times> jsval option" where
  "deliver [] w = ([], None)"
| "deliver (l # ls) w =
     (case behaviour l w of
        Some e \<Rightarrow> ([Invoke (callback_id l)], Some e)
      | None \<Rightarrow> (case deliver ls w of (es, r) \<Rightarrow> (Invoke (callback_id l) # es, r)))"

text \<open>\<open>this.emit('update')\<close>.\<close>

definition emit_update :: "groupStore \<Rightarrow> completion" where
  "emit_update s =
     (case deliver (listeners s) (view_of s) of
        (es, None) \<Rightarrow> Inr (s\<lparr>trace := trace s @ Emit Update # es\<rparr>)
      | (es, Some e) \<Rightarrow> Inl (e, s\<lparr>trace := trace s @ Emit Update # es\<rparr>))"

text \<open>\<open>emit('error', err)\<close> runs the listener that the constructor has registered.\<close>

definition emit_error :: "jsval \<Rightarrow> groupStore \<Rightarrow> groupStore" where
  "emit_error err s =
     s\<lparr>trace := trace s @
        [Emit (Error err),
         ConsoleError [JStr ''GroupStore for '', groupId s, JStr '' encountered error'', err]]\<rparr>"

definition console_error :: "jsval list \<Rightarrow> groupStore \<Rightarrow> groupStore" where
  "console_error args s = s\<lparr>trace := trace s @ [ConsoleError args]\<rparr>"

definition notifyListeners :: "groupStore \<Rightarrow> completion" where
  "notifyListeners s = emit_update s"

subsection \<open>Fetches\<close>

text \<open>Calling a client method and attaching \<open>r\<close> to the promise it returns.\<close>

definition request :: "client_call \<Rightarrow> reaction \<Rightarrow> groupStore \<Rightarrow> groupStore" where
  "request c r s =
     s\<lparr>pending := (pending s)(next_id s \<mapsto> r),
       next_id := Suc (next_id s),
       trace := trace s @ [Request (next_id s) c]\<rparr>"

definition fetchMembers :: "groupStore \<Rightarrow> groupStore" where
  "fetchMembers s =
     request (GetGroupInvitedUsers (groupId s)) (OnFetch GroupInvitedMembers)
       (request (GetGroupUsers (groupId s)) (OnFetch GroupMembers) s)"

definition fetchSummary :: "groupStore \<Rightarrow> groupStore" where
  "fetchSummary s = request (GetGroupSummary (groupId s)) (OnFetch Summary) s"

definition fetchRooms :: "groupStore \<Rightarrow> groupStore" where
  "fetchRooms s = request (GetGroupRooms (groupId s)) (OnFetch GroupRooms) s"

text \<open>\<open>result.chunk.map(f)\<close>; \<open>Inl\<close> is the value thrown.\<close>

definition chunk_map :: "(jsval \<Rightarrow> jsval) \<Rightarrow> jsval \<Rightarrow> jsval + jsval list" where
  "chunk_map f result =
     (case get_prop result ''chunk'' of
        Inl e \<Rightarrow> Inl e
      | Inr (JArr xs) \<Rightarrow> Inr (map f xs)
      | Inr _ \<Rightarrow> Inl type_error)"

text \<open>
  The callback that the fetch of a slice passes to \<open>then\<close>. It throws before it has
  changed anything when the response has no entries to map, and after it has stored the
  value and set the flag when a subscribed callback throws.
\<close>

fun fetch_then :: "groups \<Rightarrow> slice \<Rightarrow> jsval \<Rightarrow> groupStore \<Rightarrow> completion" where
  "fetch_then g GroupMembers result s =
     (case chunk_map (groupMemberFromApiObject g) result of
        Inl e \<Rightarrow> Inl (e, s)
      | Inr ms \<Rightarrow>
          notifyListeners
            (s\<lparr>members := ms,
               ready := set_prop (ready s) (STATE_KEY GroupMembers) (JBool True)\<rparr>))"
| "fetch_then g GroupInvitedMembers result s =
     (case chunk_map (groupMemberFromApiObject g) result of
        Inl e \<Rightarrow> Inl (e, s)
      | Inr ms \<Rightarrow>
          notifyListeners
            (s\<lparr>invitedMembers := ms,
               ready := set_prop (ready s) (STATE_KEY GroupInvitedMembers) (JBool True)\<rparr>))"
| "fetch_then g Summary resp s =
     notifyListeners
       (s\<lparr>summary := resp,
          ready := set_prop (ready s) (STATE_KEY Summary) (JBool True)\<rparr>)"
| "fetch_then g GroupRooms resp s =
     (case chunk_map (groupRoomFromApiObject g) resp of
        Inl e \<Rightarrow> Inl (e, s)
      | Inr rs \<Rightarrow>
          notifyListeners
            (s\<lparr>rooms := rs,
               ready := set_prop (ready s) (STATE_KEY GroupRooms) (JBool True)\<rparr>))"

text \<open>
  The callback that the fetch of a slice passes to \<open>catch\<close>; \<open>Inl\<close> is the value it
  throws, which it does before it has changed anything. The two messages are built in the
  source by \<open>"..." + err\<close>; the model keeps the two parts.
\<close>

fun fetch_catch :: "slice \<Rightarrow> jsval \<Rightarrow> groupStore \<Rightarrow> jsval + groupStore" where
  "fetch_catch GroupMembers err s =
     Inr (emit_error err
            (console_error [JStr ''Failed to get group member list: '', err] s))"
| "fetch_catch GroupInvitedMembers err s =
     (case get_prop err ''httpStatus'' of
        Inl e \<Rightarrow> Inl e
      | Inr st \<Rightarrow>
          if st = JNum 403 then Inr s
          else Inr (emit_error err
                 (console_error [JStr ''Failed to get group invited member list: '', err] s)))"
| "fetch_catch Summary err s = Inr (emit_error err s)"
| "fetch_catch GroupRooms err s = Inr (emit_error err s)"

text \<open>
  \<open>p.then(f).catch(h)\<close> once \<open>p\<close> is settled: \<open>h\<close> receives the rejection of \<open>p\<close> and
  also what \<open>f\<close> throws, and runs on the store as \<open>f\<close> has left it; what \<open>h\<close> throws is
  handled by nothing.
\<close>

definition run_catch :: "slice \<Rightarrow> jsval \<Rightarrow> groupStore \<Rightarrow> groupStore" where
  "run_catch k err s =
     (case fetch_catch k err s of
        Inr s' \<Rightarrow> s'
      | Inl e \<Rightarrow> s\<lparr>trace := trace s @ [UnhandledRejection e]\<rparr>)"

definition on_fetch :: "groups \<Rightarrow> slice \<Rightarrow> outcome \<Rightarrow> groupStore \<Rightarrow> groupStore" where
  "on_fetch g k out s =
     (case out of
        Resolved v \<Rightarrow>
          (case fetch_then g k v s of Inr s' \<Rightarrow> s' | Inl (e, s') \<Rightarrow> run_catch k e s')
      | Rejected err \<Rightarrow> run_catch k err s)"

subsection \<open>Listeners and accessors\<close>

text \<open>
  What \<open>this.emit('update')\<close> throws leaves \<open>registerListener\<close> before the three fetch
  methods are called.
\<close>

definition registerListener :: "listener \<Rightarrow> groupStore \<Rightarrow> completion" where
  "registerListener fn s =
     (case emit_update (s\<lparr>listeners := listeners s @ [fn]\<rparr>) of
        Inl (e, s') \<Rightarrow> Inl (e, s')
      | Inr s' \<Rightarrow> Inr (fetchMembers (fetchRooms (fetchSummary s'))))"

text \<open>\<open>removeListener\<close> takes out the instance of \<open>fn\<close> that was added last.\<close>

definition unregisterListener :: "listener \<Rightarrow> groupStore \<Rightarrow> groupStore" where
  "unregisterListener fn s = s\<lparr>listeners := rev (remove1 fn (rev (listeners s)))\<rparr>"

definition isStateReady :: "string \<Rightarrow> groupStore \<Rightarrow> jsval" where
  "isStateReady key s = lookup_prop (ready s) key"

definition getSummary :: "groupStore \<Rightarrow> jsval" where
  "getSummary s = summary s"

definition getGroupRooms :: "groupStore \<Rightarrow> jsval list" where
  "getGroupRooms s = rooms s"

definition getGroupMembers :: "groupStore \<Rightarrow> jsval list" where
  "getGroupMembers s = members s"

definition getGroupInvitedMembers :: "groupStore \<Rightarrow> jsval list" where
  "getGroupInvitedMembers s = invitedMembers s"

text \<open>\<open>this._summary.user ? this._summary.user.f : null\<close>; \<open>Inl\<close> is the value thrown.\<close>

definition user_field :: "string \<Rightarrow> groupStore \<Rightarrow> jsval + jsval" where
  "user_field f s =
     (case get_prop (summary s) ''user'' of
        Inl e \<Rightarrow> Inl e
      | Inr u \<Rightarrow> if truthy u then get_prop u f else Inr JNull)"

definition getGroupPublicity :: "groupStore \<Rightarrow> jsval + jsval" where
  "getGroupPublicity s = user_field ''is_publicised'' s"

definition isUserPrivileged :: "groupStore \<Rightarrow> jsval + jsval" where
  "isUserPrivileged s = user_field ''is_privileged'' s"

subsection \<open>Mutations\<close>

fun run_callback :: "callback \<Rightarrow> groupStore \<Rightarrow> groupStore" where
  "run_callback FetchRooms s = fetchRooms s"
| "run_callback FetchSummary s = fetchSummary s"
| "run_callback FetchMembers s = fetchMembers s"
| "run_callback InvalidateFlair s =
     s\<lparr>trace := trace s @ [InvalidatePublicisedGroups (credentials_userId (matrixClient s))]\<rparr>"

text \<open>
  \<open>p.then(f1).then(f2)\<close> once \<open>p\<close> is settled, \<open>n\<close> being the number of the promise
  that the mutation has returned. Each callback returns \<open>undefined\<close>, so the next one runs
  and the returned promise is fulfilled with \<open>undefined\<close>; a rejection of \<open>p\<close> skips the
  callbacks and rejects the returned promise. The reaction jobs of one chain run back to
  back.
\<close>

definition on_mutation :: "nat \<Rightarrow> callback list \<Rightarrow> outcome \<Rightarrow> groupStore \<Rightarrow> groupStore" where
  "on_mutation n cbs out s =
     (case out of
        Resolved v \<Rightarrow>
          (let s' = fold run_callback cbs s
           in s'\<lparr>signals := (signals s')(n \<mapsto> Resolved JUndefined)\<rparr>)
      | Rejected err \<Rightarrow> s\<lparr>signals := (signals s)(n \<mapsto> Rejected err)\<rparr>)"

text \<open>
  A mutation calls the client and returns the promise at the end of its chain; the promise
  here has the number of the client call.
\<close>

definition mutation :: "client_call \<Rightarrow> callback list \<Rightarrow> groupStore \<Rightarrow> nat \<times> groupStore" where
  "mutation c cbs s = (next_id s, request c (OnMutation cbs) s)"

definition addRoomToGroup :: "jsval \<Rightarrow> jsval \<Rightarrow> groupStore \<Rightarrow> nat \<times> groupStore" where
  "addRoomToGroup roomId isPublic s =
     mutation (AddRoomToGroup (groupId s) roomId isPublic) [FetchRooms] s"

definition updateGroupRoomVisibility :: "jsval \<Rightarrow> jsval \<Rightarrow> groupStore \<Rightarrow> nat \<times> groupStore" where
  "updateGroupRoomVisibility roomId isPublic s =
     mutation (UpdateGroupRoomVisibility (groupId s) roomId isPublic) [FetchRooms] s"

definition removeRoomFromGroup :: "jsval \<Rightarrow> groupStore \<Rightarrow> nat \<times> groupStore" where
  "removeRoomFromGroup roomId s =
     mutation (RemoveRoomFromGroup (groupId s) roomId) [FetchSummary, FetchRooms] s"

definition inviteUserToGroup :: "jsval \<Rightarrow> groupStore \<Rightarrow> nat \<times> groupStore" where
  "inviteUserToGroup userId s =
     mutation (InviteUserToGroup (groupId s) userId) [FetchMembers] s"

definition acceptGroupInvite :: "groupStore \<Rightarrow> nat \<times> groupStore" where
  "acceptGroupInvite s =
     mutation (AcceptGroupInvite (groupId s)) [FetchRooms, FetchMembers] s"

definition addRoomToGroupSummary :: "jsval \<Rightarrow> jsval \<Rightarrow> groupStore \<Rightarrow> nat \<times> groupStore" where
  "addRoomToGroupSummary roomId categoryId s =
     mutation (AddRoomToGroupSummary (groupId s) roomId categoryId) [FetchSummary] s"

definition addUserToGroupSummary :: "jsval \<Rightarrow> jsval \<Rightarrow> groupStore \<Rightarrow> nat \<times> groupStore" where
  "addUserToGroupSummary userId roleId s =
     mutation (AddUserToGroupSummary (groupId s) userId roleId) [FetchSummary] s"

definition removeRoomFromGroupSummary :: "jsval \<Rightarrow> groupStore \<Rightarrow> nat \<times> groupStore" where
  "removeRoomFromGroupSummary roomId s =
     mutation (RemoveRoomFromGroupSummary (groupId s) roomId) [FetchSummary] s"

definition removeUserFromGroupSummary :: "jsval \<Rightarrow> groupStore \<Rightarrow> nat \<times> groupStore" where
  "removeUserFromGroupSummary userId s =
     mutation (RemoveUserFromGroupSummary (groupId s) userId) [FetchSummary] s"

definition setGroupPublicity :: "jsval \<Rightarrow> groupStore \<Rightarrow> nat \<times> groupStore" where
  "setGroupPublicity isPublished s =
     mutation (SetGroupPublicity (groupId s) isPublished) [InvalidateFlair, FetchSummary] s"

subsection \<open>The event loop\<close>

text \<open>
  The client settles one of its promises; what is attached to it runs. A promise settles
  once: a number that is not pending changes nothing.
\<close>

definition settle :: "groups \<Rightarrow> nat \<Rightarrow> outcome \<Rightarrow> groupStore \<Rightarrow> groupStore" where
  "settle g n out s =
     (case pending s n of
        None \<Rightarrow> s
      | Some r \<Rightarrow>
          (let s' = s\<lparr>pending := (pending s)(n := None)\<rparr>
           in case r of
                OnFetch k \<Rightarrow> on_fetch g k out s'
              | OnMutation cbs \<Rightarrow> on_mutation n cbs out s'))"

text \<open>A call of one of the ten mutations of the store.\<close>

datatype mutation_call =
    Call_addRoomToGroup jsval jsval
  | Call_updateGroupRoomVisibility jsval jsval
  | Call_removeRoomFromGroup jsval
  | Call_inviteUserToGroup jsval
  | Call_acceptGroupInvite
  | Call_addRoomToGroupSummary jsval jsval
  | Call_addUserToGroupSummary jsval jsval
  | Call_removeRoomFromGroupSummary jsval
  | Call_removeUserFromGroupSummary jsval
  | Call_setGroupPublicity jsval

fun mutate :: "mutation_call \<Rightarrow> groupStore \<Rightarrow> nat \<times> groupStore" where
  "mutate (Call_addRoomToGroup roomId isPublic) s = addRoomToGroup roomId isPublic s"
| "mutate (Call_updateGroupRoomVisibility roomId isPublic) s =
     updateGroupRoomVisibility roomId isPublic s"
| "mutate (Call_removeRoomFromGroup roomId) s = removeRoomFromGroup roomId s"
| "mutate (Call_inviteUserToGroup userId) s = inviteUserToGroup userId s"
| "mutate Call_acceptGroupInvite s = acceptGroupInvite s"
| "mutate (Call_addRoomToGroupSummary roomId categoryId) s =
     addRoomToGroupSummary roomId categoryId s"
| "mutate (Call_addUserToGroupSummary userId roleId) s =
     addUserToGroupSummary userId roleId s"
| "mutate (Call_removeRoomFromGroupSummary roomId) s = removeRoomFromGroupSummary roomId s"
| "mutate (Call_removeUserFromGroupSummary userId) s = removeUserFromGroupSummary userId s"
| "mutate (Call_setGroupPublicity isPublished) s = setGroupPublicity isPublished s"

text \<open>
  Everything that can happen to a store: a call of one of its methods that change state, or
  the settling of a client promise. A step gives the store as the call leaves it, also when
  the call throws.
\<close>

datatype action =
    RegisterListener listener
  | UnregisterListener listener
  | Mutate mutation_call
  | Settle nat outcome

fun step :: "groups \<Rightarrow> action \<Rightarrow> groupStore \<Rightarrow> groupStore" where
  "step g (RegisterListener fn) s = store_after (registerListener fn s)"
| "step g (UnregisterListener fn) s = unregisterListener fn s"
| "step g (Mutate m) s = snd (mutate m s)"
| "step g (Settle n out) s = settle g n out s"

fun run :: "groups \<Rightarrow> groupStore \<Rightarrow> action list \<Rightarrow> groupStore" where
  "run g s [] = s"
| "run g s (a # as) = run g (step g a s) as"

section \<open>Histories\<close>

text \<open>What the accessor of a slice returns, as one value.\<close>

fun cache :: "slice \<Rightarrow> groupStore \<Rightarrow> jsval" where
  "cache GroupMembers s = JArr (getGroupMembers s)"
| "cache GroupInvitedMembers s = JArr (getGroupInvitedMembers s)"
| "cache Summary s = getSummary s"
| "cache GroupRooms s = JArr (getGroupRooms s)"

text \<open>The entries of a response: the array that is its own property \<open>chunk\<close>, if any.\<close>

fun chunk_of :: "jsval \<Rightarrow> jsval list option" where
  "chunk_of (JObj ps) = (case map_of ps ''chunk'' of Some (JArr xs) \<Rightarrow> Some xs | _ \<Rightarrow> None)"
| "chunk_of _ = None"

text \<open>
  The value that a response holds for a slice: the response itself for the summary, the
  projections of its entries in their order for the other three; nothing when the response
  has no entries to project.
\<close>

fun fetched_value :: "groups \<Rightarrow> slice \<Rightarrow> jsval \<Rightarrow> jsval option" where
  "fetched_value g GroupMembers v =
     map_option (\<lambda>xs. JArr (map (groupMemberFromApiObject g) xs)) (chunk_of v)"
| "fetched_value g GroupInvitedMembers v =
     map_option (\<lambda>xs. JArr (map (groupMemberFromApiObject g) xs)) (chunk_of v)"
| "fetched_value g Summary v = Some v"
| "fetched_value g GroupRooms v =
     map_option (\<lambda>xs. JArr (map (groupRoomFromApiObject g) xs)) (chunk_of v)"

text \<open>
  An action completes a fetch of slice \<open>k\<close> successfully when it resolves a client promise
  that a fetch of \<open>k\<close> is waiting for, with a response that holds a value for \<open>k\<close>.
\<close>

fun completes :: "groups \<Rightarrow> slice \<Rightarrow> groupStore \<Rightarrow> action \<Rightarrow> jsval option" where
  "completes g k s (Settle n (Resolved v)) =
     (if pending s n = Some (OnFetch k) then fetched_value g k v else None)"
| "completes g k s (Settle n (Rejected err)) = None"
| "completes g k s (RegisterListener fn) = None"
| "completes g k s (UnregisterListener fn) = None"
| "completes g k s (Mutate m) = None"

text \<open>The value of the last successful fetch of slice \<open>k\<close> in a history that starts in \<open>s\<close>.\<close>

fun latest :: "groups \<Rightarrow> slice \<Rightarrow> groupStore \<Rightarrow> action list \<Rightarrow> jsval option" where
  "latest g k s [] = None"
| "latest g k s (a # as) =
     (case latest g k (step g a s) as of
        Some c \<Rightarrow> Some c
      | None \<Rightarrow> completes g k s a)"

text \<open>The effects that one action adds.\<close>

definition new_effects :: "groups \<Rightarrow> action \<Rightarrow> groupStore \<Rightarrow> effect list" where
  "new_effects g a s = drop (length (trace s)) (trace (step g a s))"

text \<open>
  The slices that the table of mutations of the specification has refreshed once the
  backend call of a mutation has succeeded, in their order; a refresh of the members
  requests the members and then the invited members.
\<close>

fun refreshes :: "mutation_call \<Rightarrow> slice list" where
  "refreshes (Call_addRoomToGroup roomId isPublic) = [GroupRooms]"
| "refreshes (Call_updateGroupRoomVisibility roomId isPublic) = [GroupRooms]"
| "refreshes (Call_removeRoomFromGroup roomId) = [Summary, GroupRooms]"
| "refreshes (Call_inviteUserToGroup userId) = [GroupMembers, GroupInvitedMembers]"
| "refreshes Call_acceptGroupInvite = [GroupRooms, GroupMembers, GroupInvitedMembers]"
| "refreshes (Call_addRoomToGroupSummary roomId categoryId) = [Summary]"
| "refreshes (Call_addUserToGroupSummary userId roleId) = [Summary]"
| "refreshes (Call_removeRoomFromGroupSummary roomId) = [Summary]"
| "refreshes (Call_removeUserFromGroupSummary userId) = [Summary]"
| "refreshes (Call_setGroupPublicity isPublished) = [Summary]"

text \<open>The client method that fetches a slice.\<close>

fun fetch_call :: "slice \<Rightarrow> jsval \<Rightarrow> client_call" where
  "fetch_call GroupMembers gid = GetGroupUsers gid"
| "fetch_call GroupInvitedMembers gid = GetGroupInvitedUsers gid"
| "fetch_call Summary gid = GetGroupSummary gid"
| "fetch_call GroupRooms gid = GetGroupRooms gid"

text \<open>
  Fetches of the slices \<open>ks\<close> issued one after the other, the first with promise number
  \<open>q\<close>: the requests made, and the promises that are pending afterwards.
\<close>

fun issued :: "nat \<Rightarrow> jsval \<Rightarrow> slice list \<Rightarrow> effect list" where
  "issued q gid [] = []"
| "issued q gid (k # ks) = Request q (fetch_call k gid) # issued (Suc q) gid ks"

fun awaiting :: "nat \<Rightarrow> slice list \<Rightarrow> (nat \<rightharpoonup> reaction) \<Rightarrow> (nat \<rightharpoonup> reaction)" where
  "awaiting q [] p = p"
| "awaiting q (k # ks) p = awaiting (Suc q) ks (p(q \<mapsto> OnFetch k))"

text \<open>What precedes the refresh: the invalidation of the flair cache, for a change of publicity.\<close>

fun before_refresh :: "mutation_call \<Rightarrow> groupStore \<Rightarrow> effect list" where
  "before_refresh (Call_setGroupPublicity isPublished) s =
     [InvalidatePublicisedGroups (credentials_userId (matrixClient s))]"
| "before_refresh m s = []"

text \<open>
  The field \<open>f\<close> of a user: its own property of that name, \<open>undefined\<close> when the user
  is not an object or has no such property.
\<close>

fun own_field :: "jsval \<Rightarrow> string \<Rightarrow> jsval" where
  "own_field (JObj us) f = (case map_of us f of Some v \<Rightarrow> v | None \<Rightarrow> JUndefined)"
| "own_field u f = JUndefined"

subsection \<open>A store to run\<close>

definition example_groups :: groups where
  "example_groups =
     \<lparr>groupMemberFromApiObject = (\<lambda>m. JObj [(''member'', m)]),
      groupRoomFromApiObject = (\<lambda>r. JObj [(''room'', r)])\<rparr>"

definition example_client :: client where
  "example_client = \<lparr>credentials_userId = JStr ''@alice:example.org''\<rparr>"

definition example_store :: groupStore where
  "example_store = initial example_client (JStr ''+test:example.org'')"

definition example_failure :: jsval where
  "example_failure = JObj [(''httpStatus'', JNum 500)]"

definition example_listener :: listener where
  "example_listener = Listener 7 (\<lambda>w. None)"

definition second_listener :: listener where
  "second_listener = Listener 8 (\<lambda>w. None)"

definition throwing_listener :: listener where
  "throwing_listener = Listener 9 (\<lambda>w. Some (JStr ''listener failed''))"

definition example_summary :: jsval where
  "example_summary = JObj [(''user'', JObj [(''is_privileged'', JBool True)])]"

text \<open>A listener registers and the summary arrives.\<close>

definition summary_loaded :: "action list" where
  "summary_loaded = [RegisterListener example_listener, Settle 0 (Resolved example_summary)]"

text \<open>Responses, failures and histories for the examples.\<close>

text \<open>A listener registers and the backend answers the summary request with nothing.\<close>

definition summary_lost :: "action list" where
  "summary_lost = [RegisterListener example_listener, Settle 0 (Resolved JUndefined)]"

definition example_rooms :: jsval where
  "example_rooms = JObj [(''chunk'', JArr [JStr ''!a:example.org'', JStr ''!b:example.org''])]"

definition example_denied :: jsval where
  "example_denied = JObj [(''httpStatus'', JNum 403)]"

definition later_failures :: "action list" where
  "later_failures =
     [Settle 1 (Rejected example_failure), RegisterListener second_listener,
      Settle 4 (Rejected example_failure)]"

definition backend_succeeds :: "action list" where
  "backend_succeeds =
     [Mutate (Call_addRoomToGroup (JStr ''!room:example.org'') (JBool False)),
      Settle 0 (Resolved JUndefined)]"

definition refresh_fails :: "action list" where
  "refresh_fails = backend_succeeds @ [Settle 1 (Rejected example_failure)]"

text \<open>The user identifiers that the flair cache was asked to invalidate, in order.\<close>

definition invalidations :: "effect list \<Rightarrow> jsval list" where
  "invalidations es = concat (map (\<lambda>e. case e of InvalidatePublicisedGroups u \<Rightarrow> [u] | _ \<Rightarrow> []) es)"

section \<open>Properties of the operations\<close>

lemma map_of_set_prop: "map_of (set_prop ps k v) = (map_of ps)(k \<mapsto> v)"
  by (induction ps) (auto simp: fun_eq_iff)

lemma lookup_set_prop:
  "lookup_prop (set_prop ps k v) k' = (if k' = k then v else lookup_prop ps k')"
  by (simp add: lookup_prop_def map_of_set_prop)

lemma STATE_KEY_inj: "STATE_KEY k = STATE_KEY k' \<longleftrightarrow> k = k'"
  by (cases k; cases k') simp_all

lemma inherited_STATE_KEY: "inherited (STATE_KEY k) = JUndefined"
  by (cases k) (simp_all add: inherited_def object_prototype_keys_def)

lemma inherited_chunk: "inherited ''chunk'' = JUndefined"
  by (simp add: inherited_def object_prototype_keys_def)

lemma chunk_map_chunk_of:
  "chunk_map f v = (case chunk_of v of Some xs \<Rightarrow> Inr (map f xs) | None \<Rightarrow> Inl type_error)"
  by (cases v)
     (auto simp: chunk_map_def lookup_prop_def inherited_chunk split: option.splits jsval.splits)

lemma request_fields:
  "groupId (request c r s) = groupId s"
  "matrixClient (request c r s) = matrixClient s"
  "summary (request c r s) = summary s"
  "rooms (request c r s) = rooms s"
  "members (request c r s) = members s"
  "invitedMembers (request c r s) = invitedMembers s"
  "ready (request c r s) = ready s"
  "listeners (request c r s) = listeners s"
  "signals (request c r s) = signals s"
  "pending (request c r s) = (pending s)(next_id s \<mapsto> r)"
  "next_id (request c r s) = Suc (next_id s)"
  "trace (request c r s) = trace s @ [Request (next_id s) c]"
  by (simp_all add: request_def)

lemma emit_error_fields:
  "groupId (emit_error e s) = groupId s"
  "matrixClient (emit_error e s) = matrixClient s"
  "summary (emit_error e s) = summary s"
  "rooms (emit_error e s) = rooms s"
  "members (emit_error e s) = members s"
  "invitedMembers (emit_error e s) = invitedMembers s"
  "ready (emit_error e s) = ready s"
  "listeners (emit_error e s) = listeners s"
  "signals (emit_error e s) = signals s"
  "pending (emit_error e s) = pending s"
  "next_id (emit_error e s) = next_id s"
  by (simp_all add: emit_error_def)

lemma console_error_fields:
  "groupId (console_error e s) = groupId s"
  "matrixClient (console_error e s) = matrixClient s"
  "summary (console_error e s) = summary s"
  "rooms (console_error e s) = rooms s"
  "members (console_error e s) = members s"
  "invitedMembers (console_error e s) = invitedMembers s"
  "ready (console_error e s) = ready s"
  "listeners (console_error e s) = listeners s"
  "signals (console_error e s) = signals s"
  "pending (console_error e s) = pending s"
  "next_id (console_error e s) = next_id s"
  by (simp_all add: console_error_def)

lemma deliver_calls:
  "fst (deliver ls w) =
     map (\<lambda>l. Invoke (callback_id l))
       (takeWhile (\<lambda>l. behaviour l w = None) ls @
        take 1 (dropWhile (\<lambda>l. behaviour l w = None) ls))"
  by (induction ls) (auto split: option.splits prod.splits)

lemma deliver_thrown:
  "snd (deliver ls w) =
     (case dropWhile (\<lambda>l. behaviour l w = None) ls of [] \<Rightarrow> None | l # _ \<Rightarrow> behaviour l w)"
  by (induction ls) (auto split: option.splits prod.splits)

lemma deliver_all_return:
  "\<forall>l \<in> set ls. behaviour l w = None \<Longrightarrow>
     deliver ls w = (map (\<lambda>l. Invoke (callback_id l)) ls, None)"
  by (induction ls) simp_all

lemma deliver_no_update: "filter (\<lambda>e. e = Emit Update) (fst (deliver ls w)) = []"
  by (induction ls) (auto split: option.splits prod.splits)

lemma store_after_emit_update:
  "store_after (emit_update s) =
     s\<lparr>trace := trace s @ Emit Update # fst (deliver (listeners s) (view_of s))\<rparr>"
  by (simp add: emit_update_def store_after_def split: prod.splits option.splits)

lemma thrown_by_emit_update:
  "thrown_by (emit_update s) = snd (deliver (listeners s) (view_of s))"
  by (simp add: emit_update_def thrown_by_def split: prod.splits option.splits)

lemma run_catch_fields:
  "groupId (run_catch k e s) = groupId s"
  "matrixClient (run_catch k e s) = matrixClient s"
  "summary (run_catch k e s) = summary s"
  "rooms (run_catch k e s) = rooms s"
  "members (run_catch k e s) = members s"
  "invitedMembers (run_catch k e s) = invitedMembers s"
  "ready (run_catch k e s) = ready s"
  "listeners (run_catch k e s) = listeners s"
  "signals (run_catch k e s) = signals s"
  "pending (run_catch k e s) = pending s"
  "next_id (run_catch k e s) = next_id s"
  by (cases k; simp add: run_catch_def emit_error_fields console_error_fields split: sum.splits)+

lemma store_after_simps:
  "store_after (Inl (e, s)) = s"
  "store_after (Inr s) = s"
  "thrown_by (Inl (e, s)) = Some e"
  "thrown_by (Inr s) = None"
  by (simp_all add: store_after_def thrown_by_def)

lemma run_catch_cache: "cache k' (run_catch k e s) = cache k' s"
  by (cases k') (simp_all add: run_catch_fields getSummary_def getGroupRooms_def
      getGroupMembers_def getGroupInvitedMembers_def)

lemma fetch_then_fields:
  "groupId (store_after (fetch_then g k v s)) = groupId s"
  "matrixClient (store_after (fetch_then g k v s)) = matrixClient s"
  "listeners (store_after (fetch_then g k v s)) = listeners s"
  "signals (store_after (fetch_then g k v s)) = signals s"
  "pending (store_after (fetch_then g k v s)) = pending s"
  "next_id (store_after (fetch_then g k v s)) = next_id s"
  by (cases k; cases "chunk_of v";
      simp add: chunk_map_chunk_of notifyListeners_def store_after_emit_update
        store_after_simps)+

lemma fetch_then_ready:
  "ready (store_after (fetch_then g k v s)) =
     (case fetched_value g k v of
        Some c \<Rightarrow> set_prop (ready s) (STATE_KEY k) (JBool True)
      | None \<Rightarrow> ready s)"
  by (cases k; cases "chunk_of v";
      simp add: chunk_map_chunk_of notifyListeners_def store_after_emit_update
        store_after_simps)

lemma fetch_then_cache:
  "cache k' (store_after (fetch_then g k v s)) =
     (case fetched_value g k v of
        Some c \<Rightarrow> if k' = k then c else cache k' s
      | None \<Rightarrow> cache k' s)"
  by (cases k; cases k'; cases "chunk_of v";
      simp add: chunk_map_chunk_of notifyListeners_def store_after_emit_update
        store_after_simps getSummary_def getGroupRooms_def getGroupMembers_def
        getGroupInvitedMembers_def)

lemma on_fetch_eq:
  "on_fetch g k out s =
     (case out of
        Resolved v \<Rightarrow>
          (case thrown_by (fetch_then g k v s) of
             None \<Rightarrow> store_after (fetch_then g k v s)
           | Some e \<Rightarrow> run_catch k e (store_after (fetch_then g k v s)))
      | Rejected err \<Rightarrow> run_catch k err s)"
  by (simp add: on_fetch_def store_after_def thrown_by_def
      split: outcome.splits sum.splits prod.splits)

lemma on_fetch_fields:
  "groupId (on_fetch g k out s) = groupId s"
  "matrixClient (on_fetch g k out s) = matrixClient s"
  "listeners (on_fetch g k out s) = listeners s"
  "signals (on_fetch g k out s) = signals s"
  "pending (on_fetch g k out s) = pending s"
  "next_id (on_fetch g k out s) = next_id s"
  by (simp_all add: on_fetch_eq run_catch_fields fetch_then_fields
      split: outcome.splits option.splits)

lemma on_fetch_ready:
  "ready (on_fetch g k out s) =
     (case out of
        Resolved v \<Rightarrow>
          (case fetched_value g k v of
             Some c \<Rightarrow> set_prop (ready s) (STATE_KEY k) (JBool True)
           | None \<Rightarrow> ready s)
      | Rejected e \<Rightarrow> ready s)"
  by (simp add: on_fetch_eq run_catch_fields fetch_then_ready
      split: outcome.splits option.splits)

lemma on_fetch_cache:
  "cache k' (on_fetch g k out s) =
     (case out of
        Resolved v \<Rightarrow>
          (case fetched_value g k v of
             Some c \<Rightarrow> if k' = k then c else cache k' s
           | None \<Rightarrow> cache k' s)
      | Rejected e \<Rightarrow> cache k' s)"
  by (simp add: on_fetch_eq run_catch_cache fetch_then_cache
      split: outcome.splits option.splits)

lemma run_callback_fields:
  "groupId (run_callback cb s) = groupId s"
  "matrixClient (run_callback cb s) = matrixClient s"
  "summary (run_callback cb s) = summary s"
  "rooms (run_callback cb s) = rooms s"
  "members (run_callback cb s) = members s"
  "invitedMembers (run_callback cb s) = invitedMembers s"
  "ready (run_callback cb s) = ready s"
  "listeners (run_callback cb s) = listeners s"
  "signals (run_callback cb s) = signals s"
  by (cases cb; simp add: fetchRooms_def fetchSummary_def fetchMembers_def request_fields)+

lemma fold_run_callback_fields:
  "groupId (fold run_callback cbs s) = groupId s"
  "matrixClient (fold run_callback cbs s) = matrixClient s"
  "summary (fold run_callback cbs s) = summary s"
  "rooms (fold run_callback cbs s) = rooms s"
  "members (fold run_callback cbs s) = members s"
  "invitedMembers (fold run_callback cbs s) = invitedMembers s"
  "ready (fold run_callback cbs s) = ready s"
  "listeners (fold run_callback cbs s) = listeners s"
  "signals (fold run_callback cbs s) = signals s"
  by (induction cbs arbitrary: s; simp add: run_callback_fields)+

lemma run_callback_next_id: "next_id s \<le> next_id (run_callback cb s)"
  by (cases cb) (simp_all add: fetchRooms_def fetchSummary_def fetchMembers_def request_fields)

lemma run_callback_pending:
  "n < next_id s \<Longrightarrow> pending (run_callback cb s) n = pending s n"
  by (cases cb) (simp_all add: fetchRooms_def fetchSummary_def fetchMembers_def request_fields)

lemma fold_run_callback_next_id: "next_id s \<le> next_id (fold run_callback cbs s)"
proof (induction cbs arbitrary: s)
  case Nil
  show ?case by simp
next
  case (Cons cb cbs)
  have "next_id s \<le> next_id (run_callback cb s)" by (rule run_callback_next_id)
  also have "\<dots> \<le> next_id (fold run_callback cbs (run_callback cb s))" by (rule Cons.IH)
  finally show ?case by simp
qed

lemma fold_run_callback_pending:
  "n < next_id s \<Longrightarrow> pending (fold run_callback cbs s) n = pending s n"
proof (induction cbs arbitrary: s)
  case Nil
  show ?case by simp
next
  case (Cons cb cbs)
  have "n < next_id (run_callback cb s)"
    using Cons.prems run_callback_next_id [of s cb] by simp
  then have "pending (fold run_callback cbs (run_callback cb s)) n = pending (run_callback cb s) n"
    by (rule Cons.IH)
  with Cons.prems show ?case by (simp add: run_callback_pending)
qed

lemma on_mutation_fields:
  "groupId (on_mutation n cbs out s) = groupId s"
  "matrixClient (on_mutation n cbs out s) = matrixClient s"
  "summary (on_mutation n cbs out s) = summary s"
  "rooms (on_mutation n cbs out s) = rooms s"
  "members (on_mutation n cbs out s) = members s"
  "invitedMembers (on_mutation n cbs out s) = invitedMembers s"
  "ready (on_mutation n cbs out s) = ready s"
  "listeners (on_mutation n cbs out s) = listeners s"
  by (simp_all add: on_mutation_def Let_def fold_run_callback_fields split: outcome.splits)

lemma on_mutation_signals:
  "signals (on_mutation n cbs out s) =
     (signals s)(n \<mapsto> (case out of Resolved v \<Rightarrow> Resolved JUndefined | Rejected e \<Rightarrow> Rejected e))"
  by (simp add: on_mutation_def Let_def fold_run_callback_fields split: outcome.splits)

lemma on_mutation_cache: "cache k (on_mutation n cbs out s) = cache k s"
  by (cases k) (simp_all add: on_mutation_fields getSummary_def getGroupRooms_def
      getGroupMembers_def getGroupInvitedMembers_def)

lemma mutate_eq:
  "\<exists>c cbs. mutate m s = mutation c cbs s"
  by (cases m) (auto simp: addRoomToGroup_def updateGroupRoomVisibility_def
      removeRoomFromGroup_def inviteUserToGroup_def acceptGroupInvite_def
      addRoomToGroupSummary_def addUserToGroupSummary_def removeRoomFromGroupSummary_def
      removeUserFromGroupSummary_def setGroupPublicity_def)

lemma mutation_fields:
  "fst (mutation c cbs s) = next_id s"
  "groupId (snd (mutation c cbs s)) = groupId s"
  "matrixClient (snd (mutation c cbs s)) = matrixClient s"
  "summary (snd (mutation c cbs s)) = summary s"
  "rooms (snd (mutation c cbs s)) = rooms s"
  "members (snd (mutation c cbs s)) = members s"
  "invitedMembers (snd (mutation c cbs s)) = invitedMembers s"
  "ready (snd (mutation c cbs s)) = ready s"
  "listeners (snd (mutation c cbs s)) = listeners s"
  "signals (snd (mutation c cbs s)) = signals s"
  "pending (snd (mutation c cbs s)) = (pending s)(next_id s \<mapsto> OnMutation cbs)"
  "next_id (snd (mutation c cbs s)) = Suc (next_id s)"
  "trace (snd (mutation c cbs s)) = trace s @ [Request (next_id s) c]"
  by (simp_all add: mutation_def request_fields)

lemma store_after_registerListener:
  "store_after (registerListener fn s) =
     (case thrown_by (emit_update (s\<lparr>listeners := listeners s @ [fn]\<rparr>)) of
        Some e \<Rightarrow> store_after (emit_update (s\<lparr>listeners := listeners s @ [fn]\<rparr>))
      | None \<Rightarrow>
          fetchMembers (fetchRooms (fetchSummary
            (store_after (emit_update (s\<lparr>listeners := listeners s @ [fn]\<rparr>))))))"
  by (simp add: registerListener_def store_after_def thrown_by_def split: sum.splits prod.splits)

lemma registerListener_fields:
  "groupId (store_after (registerListener fn s)) = groupId s"
  "matrixClient (store_after (registerListener fn s)) = matrixClient s"
  "summary (store_after (registerListener fn s)) = summary s"
  "rooms (store_after (registerListener fn s)) = rooms s"
  "members (store_after (registerListener fn s)) = members s"
  "invitedMembers (store_after (registerListener fn s)) = invitedMembers s"
  "ready (store_after (registerListener fn s)) = ready s"
  "listeners (store_after (registerListener fn s)) = listeners s @ [fn]"
  "signals (store_after (registerListener fn s)) = signals s"
  by (simp_all add: store_after_registerListener store_after_emit_update fetchMembers_def
      fetchRooms_def fetchSummary_def request_fields split: option.splits)

lemma registerListener_next_id: "next_id s \<le> next_id (store_after (registerListener fn s))"
  by (simp add: store_after_registerListener store_after_emit_update fetchMembers_def
      fetchRooms_def fetchSummary_def request_fields split: option.splits)

lemma view_of_listeners: "view_of (s\<lparr>listeners := ls\<rparr>) = view_of s"
  by (simp add: view_of_def)

lemma thrown_by_registerListener:
  "thrown_by (registerListener fn s) = snd (deliver (listeners s @ [fn]) (view_of s))"
  by (simp add: registerListener_def emit_update_def thrown_by_def view_of_listeners
      split: sum.splits prod.splits option.splits)

lemma step_ready:
  "ready (step g a s) =
     (case a of
        Settle n (Resolved v) \<Rightarrow>
          (case pending s n of
             Some (OnFetch k) \<Rightarrow>
               (case fetched_value g k v of
                  Some c \<Rightarrow> set_prop (ready s) (STATE_KEY k) (JBool True)
                | None \<Rightarrow> ready s)
           | _ \<Rightarrow> ready s)
      | _ \<Rightarrow> ready s)"
proof (cases a)
  case (RegisterListener fn)
  then show ?thesis by (simp add: registerListener_fields)
next
  case (UnregisterListener fn)
  then show ?thesis by (simp add: unregisterListener_def)
next
  case (Mutate m)
  obtain c cbs where "mutate m s = mutation c cbs s" using mutate_eq by blast
  with Mutate show ?thesis by (simp add: mutation_fields)
next
  case (Settle n out)
  then show ?thesis
    by (simp add: settle_def Let_def on_fetch_ready on_mutation_fields
        split: option.splits reaction.splits outcome.splits)
qed

lemma step_isStateReady:
  "isStateReady key (step g a s) =
     (if \<exists>k. key = STATE_KEY k \<and> completes g k s a \<noteq> None then JBool True
      else isStateReady key s)"
proof (cases a)
  case (Settle n out)
  show ?thesis
  proof (cases out)
    case (Resolved v)
    with Settle step_ready [of g a s] show ?thesis
      by (auto simp: isStateReady_def lookup_set_prop STATE_KEY_inj
          split: option.splits reaction.splits)
  next
    case (Rejected e)
    with Settle step_ready [of g a s] show ?thesis by (simp add: isStateReady_def)
  qed
next
  case (RegisterListener fn)
  with step_ready [of g a s] show ?thesis by (simp add: isStateReady_def)
next
  case (UnregisterListener fn)
  with step_ready [of g a s] show ?thesis by (simp add: isStateReady_def)
next
  case (Mutate m)
  with step_ready [of g a s] show ?thesis by (simp add: isStateReady_def)
qed

lemma step_cache:
  "cache k (step g a s) = (case completes g k s a of Some c \<Rightarrow> c | None \<Rightarrow> cache k s)"
proof (cases a)
  case (RegisterListener fn)
  then show ?thesis
    by (cases k) (simp_all add: registerListener_fields getSummary_def getGroupRooms_def
        getGroupMembers_def getGroupInvitedMembers_def)
next
  case (UnregisterListener fn)
  then show ?thesis
    by (cases k) (simp_all add: unregisterListener_def getSummary_def getGroupRooms_def
        getGroupMembers_def getGroupInvitedMembers_def)
next
  case (Mutate m)
  obtain c cbs where "mutate m s = mutation c cbs s" using mutate_eq by blast
  with Mutate show ?thesis
    by (cases k) (simp_all add: mutation_fields getSummary_def getGroupRooms_def
        getGroupMembers_def getGroupInvitedMembers_def)
next
  case (Settle n out)
  have unchanged: "cache k (s\<lparr>pending := p\<rparr>) = cache k s" for p
    by (cases k) (simp_all add: getSummary_def getGroupRooms_def
        getGroupMembers_def getGroupInvitedMembers_def)
  show ?thesis
  proof (cases out)
    case (Resolved v)
    with Settle show ?thesis
      by (auto simp: settle_def Let_def on_fetch_cache on_mutation_cache unchanged
          split: option.splits reaction.splits)
  next
    case (Rejected e)
    with Settle show ?thesis
      by (auto simp: settle_def Let_def on_fetch_cache on_mutation_cache unchanged
          split: option.splits reaction.splits)
  qed
qed

lemma run_cache:
  "cache k (run g s as) = (case latest g k s as of Some c \<Rightarrow> c | None \<Rightarrow> cache k s)"
  by (induction as arbitrary: s) (auto simp: step_cache split: option.splits)

lemma run_isStateReady:
  "isStateReady key (run g s as) =
     (if \<exists>k. key = STATE_KEY k \<and> latest g k s as \<noteq> None then JBool True
      else isStateReady key s)"
proof (induction as arbitrary: s)
  case Nil
  show ?case by simp
next
  case (Cons a as)
  show ?case
    by (auto simp: Cons.IH step_isStateReady split: option.splits)
qed

lemma run_append: "run g s (as @ bs) = run g (run g s as) bs"
  by (induction as arbitrary: s) simp_all

lemma invalidations_simps:
  "invalidations [] = []"
  "invalidations (es @ fs) = invalidations es @ invalidations fs"
  "invalidations (Request n c # es) = invalidations es"
  "invalidations (Emit ev # es) = invalidations es"
  "invalidations (Invoke fn # es) = invalidations es"
  "invalidations (ConsoleError args # es) = invalidations es"
  "invalidations (UnhandledRejection e # es) = invalidations es"
  "invalidations (InvalidatePublicisedGroups u # es) = u # invalidations es"
  by (simp_all add: invalidations_def)

lemma invalidations_deliver: "invalidations (fst (deliver ls w)) = []"
  by (induction ls) (auto simp: invalidations_simps split: option.splits prod.splits)

lemma run_callback_invalidations:
  "invalidations (trace (run_callback cb s)) =
     invalidations (trace s) @
       (if cb = InvalidateFlair then [credentials_userId (matrixClient s)] else [])"
  by (cases cb) (simp_all add: fetchRooms_def fetchSummary_def fetchMembers_def request_def
      invalidations_simps)

lemma fold_run_callback_invalidations:
  "invalidations (trace (fold run_callback cbs s)) =
     invalidations (trace s) @
       map (\<lambda>cb. credentials_userId (matrixClient s)) (filter (\<lambda>cb. cb = InvalidateFlair) cbs)"
proof (induction cbs arbitrary: s)
  case Nil
  show ?case by simp
next
  case (Cons cb cbs)
  show ?case
    by (simp add: Cons.IH run_callback_invalidations run_callback_fields)
qed

lemma on_fetch_invalidations:
  "invalidations (trace (on_fetch g k out s)) = invalidations (trace s)"
proof -
  have c: "invalidations (trace (run_catch k e s')) = invalidations (trace s')" for e s'
    by (cases k) (simp_all add: run_catch_def emit_error_def console_error_def
        invalidations_simps split: sum.splits)
  have t: "invalidations (trace (store_after (fetch_then g k v s))) = invalidations (trace s)"
    for v
    by (cases k; cases "chunk_of v";
        simp add: chunk_map_chunk_of notifyListeners_def store_after_emit_update
          store_after_simps invalidations_simps invalidations_deliver)
  show ?thesis
    by (simp add: on_fetch_eq c t split: outcome.splits option.splits)
qed

lemma step_invalidations:
  "invalidations (trace (step g a s)) =
     invalidations (trace s) @
       (case a of
          Settle n (Resolved v) \<Rightarrow>
            (case pending s n of
               Some (OnMutation cbs) \<Rightarrow>
                 map (\<lambda>cb. credentials_userId (matrixClient s))
                   (filter (\<lambda>cb. cb = InvalidateFlair) cbs)
             | _ \<Rightarrow> [])
        | _ \<Rightarrow> [])"
proof (cases a)
  case (RegisterListener fn)
  then show ?thesis
    by (simp add: store_after_registerListener store_after_emit_update fetchMembers_def
        fetchRooms_def fetchSummary_def request_fields invalidations_simps
        invalidations_deliver split: option.splits)
next
  case (UnregisterListener fn)
  then show ?thesis by (simp add: unregisterListener_def)
next
  case (Mutate m)
  obtain c cbs where "mutate m s = mutation c cbs s" using mutate_eq by blast
  with Mutate show ?thesis by (simp add: mutation_fields invalidations_simps)
next
  case (Settle n out)
  then show ?thesis
    by (simp add: settle_def Let_def on_fetch_invalidations on_mutation_def
        fold_run_callback_invalidations fold_run_callback_fields
        split: option.splits reaction.splits outcome.splits)
qed

lemma registerListener_pending:
  "n < next_id s \<Longrightarrow> pending (store_after (registerListener fn s)) n = pending s n"
  by (simp add: store_after_registerListener store_after_emit_update fetchMembers_def
      fetchRooms_def fetchSummary_def request_fields split: option.splits)

lemma on_mutation_next_id: "next_id s \<le> next_id (on_mutation n cbs out s)"
  by (simp add: on_mutation_def Let_def fold_run_callback_next_id split: outcome.splits)

lemma on_mutation_pending:
  "m < next_id s \<Longrightarrow> pending (on_mutation n cbs out s) m = pending s m"
  by (simp add: on_mutation_def Let_def fold_run_callback_pending split: outcome.splits)

text \<open>A promise number that has been given out and is no longer pending is never pending again,
  and the state of the promise it stands for does not change.\<close>

lemma settled_step:
  assumes "pending s n = None" and "n < next_id s"
  shows "pending (step g a s) n = None \<and> n < next_id (step g a s) \<and>
         signals (step g a s) n = signals s n"
proof (cases a)
  case (RegisterListener fn)
  with assms registerListener_next_id [of s fn] show ?thesis
    by (simp add: registerListener_pending registerListener_fields)
next
  case (UnregisterListener fn)
  with assms show ?thesis by (simp add: unregisterListener_def)
next
  case (Mutate m)
  obtain c cbs where "mutate m s = mutation c cbs s" using mutate_eq by blast
  with Mutate assms show ?thesis by (simp add: mutation_fields)
next
  case (Settle n' out)
  show ?thesis
  proof (cases "pending s n'")
    case None
    with Settle assms show ?thesis by (simp add: settle_def)
  next
    case (Some r)
    with assms have ne: "n' \<noteq> n" by auto
    let ?s' = "s\<lparr>pending := (pending s)(n' := None)\<rparr>"
    have s': "pending ?s' n = None" "n < next_id ?s'" "signals ?s' = signals s"
      using assms by simp_all
    show ?thesis
    proof (cases r)
      case (OnFetch k)
      with Settle Some s' show ?thesis
        by (simp add: settle_def on_fetch_fields)
    next
      case (OnMutation cbs)
      have "n < next_id (on_mutation n' cbs out ?s')"
        using s'(2) on_mutation_next_id [of ?s' n' cbs out] by simp
      with Settle Some OnMutation s' ne show ?thesis
        by (simp add: settle_def on_mutation_pending on_mutation_signals)
    qed
  qed
qed

lemma settled_run:
  "pending s n = None \<Longrightarrow> n < next_id s \<Longrightarrow> signals (run g s as) n = signals s n"
proof (induction as arbitrary: s)
  case Nil
  show ?case by simp
next
  case (Cons a as)
  from settled_step [OF Cons.prems, of g a]
  have "pending (step g a s) n = None" "n < next_id (step g a s)"
    "signals (step g a s) n = signals s n"
    by simp_all
  with Cons.IH [of "step g a s"] show ?case by simp
qed

lemma mutation_resolved:
  "pending (settle g (next_id s) (Resolved v) (snd (mutation c cbs s))) (next_id s) = None \<and>
   next_id s < next_id (settle g (next_id s) (Resolved v) (snd (mutation c cbs s))) \<and>
   signals (settle g (next_id s) (Resolved v) (snd (mutation c cbs s))) (next_id s) =
     Some (Resolved JUndefined)"
proof -
  let ?s' = "(snd (mutation c cbs s))\<lparr>pending := (pending (snd (mutation c cbs s)))(next_id s := None)\<rparr>"
  have a: "next_id s < next_id ?s'" "pending ?s' (next_id s) = None"
    by (simp_all add: mutation_fields)
  have b: "settle g (next_id s) (Resolved v) (snd (mutation c cbs s)) =
      on_mutation (next_id s) cbs (Resolved v) ?s'"
    by (simp add: settle_def mutation_fields)
  have "next_id s < next_id (on_mutation (next_id s) cbs (Resolved v) ?s')"
    using a(1) on_mutation_next_id [of ?s' "next_id s" cbs "Resolved v"] by simp
  with a show ?thesis
    by (simp only: b on_mutation_pending on_mutation_signals) simp
qed

section \<open>Evaluation\<close>

lemmas example_defs = example_listener_def second_listener_def throwing_listener_def
  example_groups_def example_client_def example_store_def
  example_failure_def example_summary_def summary_loaded_def

lemmas op_defs = initial_def registerListener_def unregisterListener_def store_after_def
  thrown_by_def view_of_def
  fetchMembers_def fetchRooms_def fetchSummary_def request_def emit_update_def emit_error_def
  console_error_def notifyListeners_def settle_def on_fetch_def run_catch_def on_mutation_def
  mutation_def chunk_map_def lookup_prop_def inherited_def object_prototype_keys_def
  isStateReady_def getSummary_def getGroupRooms_def getGroupMembers_def
  getGroupInvitedMembers_def getGroupPublicity_def isUserPrivileged_def user_field_def
  type_error_def

lemmas more_defs = example_rooms_def example_denied_def later_failures_def

lemmas mutation_defs = addRoomToGroup_def updateGroupRoomVisibility_def
  removeRoomFromGroup_def inviteUserToGroup_def acceptGroupInvite_def
  addRoomToGroupSummary_def addUserToGroupSummary_def removeRoomFromGroupSummary_def
  removeUserFromGroupSummary_def setGroupPublicity_def

section \<open>The claims\<close>

text \<open>
  C1 as stated fails: \<open>addRoomToGroup\<close> is called, the backend call succeeds, the rooms
  fetch that follows is rejected, and the promise that \<open>addRoomToGroup\<close> returned is
  fulfilled, not rejected with the failure of the fetch.
\<close>

theorem refresh_failure_counterexample:
  "pending (run example_groups example_store backend_succeeds) 1 = Some (OnFetch GroupRooms) \<and>
   signals (run example_groups example_store refresh_fails) 0 = Some (Resolved JUndefined) \<and>
   signals (run example_groups example_store refresh_fails) 0 \<noteq> Some (Rejected example_failure)"
  by (simp add: example_defs op_defs backend_succeeds_def refresh_fails_def addRoomToGroup_def)

text \<open>
  C1, amended. For every mutation: when the backend call succeeds, the returned promise is
  fulfilled with \<open>undefined\<close> and stays so whatever happens afterwards. In that step the
  refresh is issued: after the invalidation that a change of publicity makes, exactly the
  fetches of the slices that the table of mutations names for this mutation are requested,
  in its order, with the promise numbers that follow the one of the backend call, and these
  are the promises that are new among the pending ones. The failure of a fetch changes the
  state of no returned promise; it is reported by an "error" event that carries it (the
  fetch of the invited members has its own rule for this, see C2).
\<close>

theorem refresh_failure_stays_out_of_signal:
  "signals (run g (settle g (fst (mutate m s)) (Resolved v) (snd (mutate m s))) as)
     (fst (mutate m s)) = Some (Resolved JUndefined) \<and>
   trace (settle g (fst (mutate m s)) (Resolved v) (snd (mutate m s))) =
     trace (snd (mutate m s)) @ before_refresh m s @
       issued (Suc (next_id s)) (groupId s) (refreshes m) \<and>
   pending (settle g (fst (mutate m s)) (Resolved v) (snd (mutate m s))) =
     awaiting (Suc (next_id s)) (refreshes m) ((pending s)(next_id s := None)) \<and>
   refreshes m \<noteq> [] \<and>
   (pending s' r = Some (OnFetch k) \<longrightarrow>
      signals (settle g r (Rejected err) s') = signals s' \<and>
      (k \<noteq> GroupInvitedMembers \<longrightarrow>
         Emit (Error err) \<in> set (new_effects g (Settle r (Rejected err)) s')))"
proof -
  obtain c cbs where m: "mutate m s = mutation c cbs s" using mutate_eq by blast
  let ?n = "next_id s"
  let ?s2 = "settle g ?n (Resolved v) (snd (mutation c cbs s))"
  from mutation_resolved [of g s v c cbs]
  have a: "pending ?s2 ?n = None" "?n < next_id ?s2" "signals ?s2 ?n = Some (Resolved JUndefined)"
    by simp_all
  have 1: "signals (run g ?s2 as) ?n = Some (Resolved JUndefined)"
    using settled_run [OF a(1) a(2), of g as] a(3) by simp
  have 2: "pending s' r = Some (OnFetch k) \<longrightarrow>
      signals (settle g r (Rejected err) s') = signals s' \<and>
      (k \<noteq> GroupInvitedMembers \<longrightarrow>
         Emit (Error err) \<in> set (new_effects g (Settle r (Rejected err)) s'))"
  proof
    assume p: "pending s' r = Some (OnFetch k)"
    then have sig: "signals (settle g r (Rejected err) s') = signals s'"
      by (simp add: settle_def on_fetch_fields)
    from p have "k \<noteq> GroupInvitedMembers \<longrightarrow>
        Emit (Error err) \<in> set (new_effects g (Settle r (Rejected err)) s')"
      by (cases k) (simp_all add: settle_def on_fetch_def run_catch_def emit_error_def
          console_error_def new_effects_def)
    with sig show "signals (settle g r (Rejected err) s') = signals s' \<and>
      (k \<noteq> GroupInvitedMembers \<longrightarrow>
         Emit (Error err) \<in> set (new_effects g (Settle r (Rejected err)) s'))"
      by blast
  qed
  have 3: "trace (settle g (fst (mutate m s)) (Resolved v) (snd (mutate m s))) =
     trace (snd (mutate m s)) @ before_refresh m s @
       issued (Suc (next_id s)) (groupId s) (refreshes m)"
    by (cases m)
       (simp_all add: mutation_defs mutation_def request_def settle_def on_mutation_def
          fetchRooms_def fetchSummary_def fetchMembers_def)
  have 4: "pending (settle g (fst (mutate m s)) (Resolved v) (snd (mutate m s))) =
     awaiting (Suc (next_id s)) (refreshes m) ((pending s)(next_id s := None))"
    by (cases m)
       (simp_all add: mutation_defs mutation_def request_def settle_def on_mutation_def
          fetchRooms_def fetchSummary_def fetchMembers_def)
  have 5: "refreshes m \<noteq> []"
    by (cases m) simp_all
  from 1 2 3 4 5 show ?thesis by (simp add: m mutation_fields)
qed

theorem refresh_failure_stays_out_of_signal_witness:
  "signals (run example_groups example_store refresh_fails) 0 = Some (Resolved JUndefined) \<and>
   Emit (Error example_failure) \<in> set (trace (run example_groups example_store refresh_fails))"
proof -
  have a: "pending (run example_groups example_store backend_succeeds) 1 =
      Some (OnFetch GroupRooms)"
    by (simp add: example_defs op_defs backend_succeeds_def addRoomToGroup_def)
  have b: "run example_groups example_store refresh_fails =
      run example_groups (settle example_groups
        (fst (mutate (Call_addRoomToGroup (JStr ''!room:example.org'') (JBool False)) example_store))
        (Resolved JUndefined)
        (snd (mutate (Call_addRoomToGroup (JStr ''!room:example.org'') (JBool False)) example_store)))
        [Settle 1 (Rejected example_failure)]"
    by (simp add: refresh_fails_def backend_succeeds_def addRoomToGroup_def mutation_def
        example_store_def initial_def)
  have c: "fst (mutate (Call_addRoomToGroup (JStr ''!room:example.org'') (JBool False))
      example_store) = 0"
    by (simp add: addRoomToGroup_def mutation_def example_store_def initial_def)
  have d: "set (new_effects example_groups (Settle 1 (Rejected example_failure))
        (run example_groups example_store backend_succeeds))
      \<subseteq> set (trace (run example_groups example_store refresh_fails))"
    by (simp add: new_effects_def refresh_fails_def run_append set_drop_subset)
  show ?thesis
    using a c d refresh_failure_stays_out_of_signal
      [of example_groups "Call_addRoomToGroup (JStr ''!room:example.org'') (JBool False)"
        example_store JUndefined "[Settle 1 (Rejected example_failure)]"
        "run example_groups example_store backend_succeeds" 1 GroupRooms example_failure]
    by (auto simp: b)
qed

text \<open>
  C2. When the promise of the invited-members fetch is rejected with a failure whose
  \<open>httpStatus\<close> is 403, nothing is emitted or logged and the invited members and the
  readiness object stay as they are; with any other \<open>httpStatus\<close> the failure is logged
  and emitted as an "error" event, the invited members and the readiness object still
  unchanged.
\<close>

theorem invited_members_denied_is_silent:
  assumes "pending s n = Some (OnFetch GroupInvitedMembers)"
  shows "(get_prop err ''httpStatus'' = Inr (JNum 403) \<longrightarrow>
            trace (settle g n (Rejected err) s) = trace s \<and>
            getGroupInvitedMembers (settle g n (Rejected err) s) = getGroupInvitedMembers s \<and>
            ready (settle g n (Rejected err) s) = ready s) \<and>
         (\<forall>st. get_prop err ''httpStatus'' = Inr st \<and> st \<noteq> JNum 403 \<longrightarrow>
            trace (settle g n (Rejected err) s) =
              trace s @
              [ConsoleError [JStr ''Failed to get group invited member list: '', err],
               Emit (Error err),
               ConsoleError [JStr ''GroupStore for '', groupId s,
                             JStr '' encountered error'', err]] \<and>
            getGroupInvitedMembers (settle g n (Rejected err) s) = getGroupInvitedMembers s \<and>
            ready (settle g n (Rejected err) s) = ready s)"
  using assms
  by (auto simp: settle_def on_fetch_def run_catch_def emit_error_def console_error_def
      getGroupInvitedMembers_def)

theorem invited_members_denied_is_silent_witness:
  "trace (settle example_groups 3 (Rejected example_denied) (store_after (registerListener example_listener example_store))) =
     trace (store_after (registerListener example_listener example_store)) \<and>
   Emit (Error example_failure) \<in>
     set (trace (settle example_groups 3 (Rejected example_failure)
       (store_after (registerListener example_listener example_store))))"
proof -
  have a: "pending (store_after (registerListener example_listener example_store)) 3 = Some (OnFetch GroupInvitedMembers)"
    by (simp add: example_defs op_defs)
  have b: "get_prop example_denied ''httpStatus'' = Inr (JNum 403)"
    "get_prop example_failure ''httpStatus'' = Inr (JNum 500)"
    by (simp_all add: example_defs more_defs op_defs)
  show ?thesis
    using b invited_members_denied_is_silent [OF a, of example_denied example_groups]
      invited_members_denied_is_silent [OF a, of example_failure example_groups]
    by simp
qed

text \<open>
  C3. For each of the four slices: when a fetch of the slice is resolved with a response
  that holds a value for it, the accessor of the slice returns that value and
  \<open>isStateReady\<close> of its key returns \<open>true\<close>; when it is rejected, or resolved with a
  response without entries, cache and readiness object are unchanged; and after any
  history from construction the slice is the value of the last successful fetch, or the
  initial \<open>{}\<close> (summary) or empty sequence (the others) when there was none.
\<close>

theorem slices_hold_last_fetched_value:
  "(pending s n = Some (OnFetch k) \<and> fetched_value g k v = Some c \<longrightarrow>
      cache k (settle g n (Resolved v) s) = c \<and>
      isStateReady (STATE_KEY k) (settle g n (Resolved v) s) = JBool True) \<and>
   (pending s n = Some (OnFetch k) \<and>
      (out = Rejected e \<or> out = Resolved v \<and> fetched_value g k v = None) \<longrightarrow>
      cache k (settle g n out s) = cache k s \<and> ready (settle g n out s) = ready s) \<and>
   cache k (run g (initial mc gid) as) =
     (case latest g k (initial mc gid) as of
        Some c' \<Rightarrow> c'
      | None \<Rightarrow> if k = Summary then JObj [] else JArr [])"
proof -
  have 1: "pending s n = Some (OnFetch k) \<and> fetched_value g k v = Some c \<longrightarrow>
      cache k (settle g n (Resolved v) s) = c \<and>
      isStateReady (STATE_KEY k) (settle g n (Resolved v) s) = JBool True"
    using step_cache [of k g "Settle n (Resolved v)" s]
      step_isStateReady [of "STATE_KEY k" g "Settle n (Resolved v)" s]
    by (auto simp: STATE_KEY_inj)
  have 2: "pending s n = Some (OnFetch k) \<and>
      (out = Rejected e \<or> out = Resolved v \<and> fetched_value g k v = None) \<longrightarrow>
      cache k (settle g n out s) = cache k s \<and> ready (settle g n out s) = ready s"
    using step_cache [of k g "Settle n out" s] step_ready [of g "Settle n out" s]
    by auto
  have init: "cache k (initial mc gid) = (if k = Summary then JObj [] else JArr [])"
    by (cases k) (simp_all add: initial_def getSummary_def getGroupRooms_def
        getGroupMembers_def getGroupInvitedMembers_def)
  have 3: "cache k (run g (initial mc gid) as) =
     (case latest g k (initial mc gid) as of
        Some c' \<Rightarrow> c'
      | None \<Rightarrow> if k = Summary then JObj [] else JArr [])"
    by (simp only: run_cache init)
  from 1 2 3 show ?thesis by blast
qed

theorem slices_hold_last_fetched_value_witness:
  "getGroupRooms (settle example_groups 1 (Resolved example_rooms)
      (store_after (registerListener example_listener example_store))) =
     [JObj [(''room'', JStr ''!a:example.org'')], JObj [(''room'', JStr ''!b:example.org'')]] \<and>
   isStateReady ''GroupRooms'' (settle example_groups 1 (Resolved example_rooms)
      (store_after (registerListener example_listener example_store))) = JBool True \<and>
   getGroupRooms (settle example_groups 1 (Rejected example_failure)
      (store_after (registerListener example_listener example_store))) = [] \<and>
   ready (settle example_groups 1 (Rejected example_failure)
      (store_after (registerListener example_listener example_store))) = []"
proof -
  have a: "pending (store_after (registerListener example_listener example_store)) 1 = Some (OnFetch GroupRooms)"
    by (simp add: example_defs op_defs)
  have b: "fetched_value example_groups GroupRooms example_rooms =
      Some (JArr [JObj [(''room'', JStr ''!a:example.org'')],
                  JObj [(''room'', JStr ''!b:example.org'')]])"
    by (simp add: example_defs more_defs)
  have c: "cache GroupRooms (store_after (registerListener example_listener example_store)) = JArr []"
    "ready (store_after (registerListener example_listener example_store)) = []"
    by (simp_all add: example_defs op_defs)
  show ?thesis
    using a b c
      slices_hold_last_fetched_value [of "store_after (registerListener example_listener example_store)" 1 GroupRooms
        example_groups example_rooms
        "JArr [JObj [(''room'', JStr ''!a:example.org'')],
               JObj [(''room'', JStr ''!b:example.org'')]]"
        "Rejected example_failure" example_failure]
    by simp
qed

text \<open>
  C4. After any history from construction the flag of a state key is \<open>true\<close> exactly
  when a fetch of its slice has completed successfully in that history; a single action
  makes it \<open>true\<close> exactly when it was so before or the action completes such a fetch;
  and a flag that is \<open>true\<close> stays \<open>true\<close> through every history.
\<close>

theorem readiness_flags_monotone:
  "(isStateReady (STATE_KEY k) (run g (initial mc gid) as) = JBool True \<longleftrightarrow>
      latest g k (initial mc gid) as \<noteq> None) \<and>
   (isStateReady (STATE_KEY k) (step g a s) = JBool True \<longleftrightarrow>
      isStateReady (STATE_KEY k) s = JBool True \<or> completes g k s a \<noteq> None) \<and>
   (isStateReady (STATE_KEY k) s = JBool True \<longrightarrow>
      isStateReady (STATE_KEY k) (run g s bs) = JBool True)"
proof -
  have init: "isStateReady (STATE_KEY k) (initial mc gid) = JUndefined"
    by (simp add: isStateReady_def initial_def lookup_prop_def inherited_STATE_KEY)
  have 1: "isStateReady (STATE_KEY k) (run g (initial mc gid) as) = JBool True \<longleftrightarrow>
      latest g k (initial mc gid) as \<noteq> None"
    by (simp add: run_isStateReady STATE_KEY_inj init)
  have 2: "isStateReady (STATE_KEY k) (step g a s) = JBool True \<longleftrightarrow>
      isStateReady (STATE_KEY k) s = JBool True \<or> completes g k s a \<noteq> None"
    by (simp only: step_isStateReady STATE_KEY_inj) auto
  have 3: "isStateReady (STATE_KEY k) s = JBool True \<longrightarrow>
      isStateReady (STATE_KEY k) (run g s bs) = JBool True"
    by (simp add: run_isStateReady)
  from 1 2 3 show ?thesis by blast
qed

theorem readiness_flags_monotone_witness:
  "isStateReady ''Summary'' (run example_groups example_store summary_loaded) = JBool True \<and>
   isStateReady ''Summary''
     (run example_groups (run example_groups example_store summary_loaded) later_failures) =
     JBool True"
proof -
  have a: "isStateReady (STATE_KEY Summary) (run example_groups example_store summary_loaded) =
      JBool True"
    by (simp add: example_defs op_defs)
  show ?thesis
    using a readiness_flags_monotone [of Summary example_groups example_client
        "JStr ''+test:example.org''" summary_loaded "Settle 1 (Rejected example_failure)"
        "run example_groups example_store summary_loaded" later_failures]
    by simp
qed

text \<open>
  C5 as stated fails for a callback that throws: the one "update" is emitted and the
  callback is called, what it throws leaves \<open>registerListener\<close>, and no fetch is issued.
\<close>

theorem registerListener_throwing_callback_counterexample:
  "thrown_by (registerListener throwing_listener example_store) =
     Some (JStr ''listener failed'') \<and>
   trace (store_after (registerListener throwing_listener example_store)) =
     [Emit Update, Invoke 9] \<and>
   next_id (store_after (registerListener throwing_listener example_store)) = 0"
  by (simp add: example_defs op_defs)

text \<open>
  C5, amended. \<open>registerListener(fn)\<close> subscribes \<open>fn\<close> and emits exactly one
  "update", which calls the callbacks subscribed so far and then \<open>fn\<close>, in this order,
  up to the first one that throws; caches and readiness object are as before. When every
  callback returns normally, it then requests the summary, the rooms, the members and the
  invited members, in this order, it returns normally, and the four requests are pending
  when it returns. When a callback throws, \<open>registerListener\<close> throws what the first such
  callback throws, and requests nothing.
\<close>

theorem registerListener_emits_then_fetches:
  "((\<forall>l \<in> set (listeners s @ [fn]). behaviour l (view_of s) = None) \<longrightarrow>
      thrown_by (registerListener fn s) = None \<and>
      trace (store_after (registerListener fn s)) =
        trace s @ Emit Update # map (\<lambda>l. Invoke (callback_id l)) (listeners s @ [fn]) @
          [Request (next_id s) (GetGroupSummary (groupId s)),
           Request (next_id s + 1) (GetGroupRooms (groupId s)),
           Request (next_id s + 2) (GetGroupUsers (groupId s)),
           Request (next_id s + 3) (GetGroupInvitedUsers (groupId s))] \<and>
      pending (store_after (registerListener fn s)) =
        (pending s)(next_id s \<mapsto> OnFetch Summary, next_id s + 1 \<mapsto> OnFetch GroupRooms,
           next_id s + 2 \<mapsto> OnFetch GroupMembers,
           next_id s + 3 \<mapsto> OnFetch GroupInvitedMembers)) \<and>
   ((\<exists>l \<in> set (listeners s @ [fn]). behaviour l (view_of s) \<noteq> None) \<longrightarrow>
      thrown_by (registerListener fn s) \<noteq> None \<and>
      trace (store_after (registerListener fn s)) =
        trace s @ Emit Update #
          map (\<lambda>l. Invoke (callback_id l))
            (takeWhile (\<lambda>l. behaviour l (view_of s) = None) (listeners s @ [fn]) @
             take 1 (dropWhile (\<lambda>l. behaviour l (view_of s) = None) (listeners s @ [fn]))) \<and>
      pending (store_after (registerListener fn s)) = pending s \<and>
      next_id (store_after (registerListener fn s)) = next_id s) \<and>
   thrown_by (registerListener fn s) =
     (case dropWhile (\<lambda>l. behaviour l (view_of s) = None) (listeners s @ [fn]) of
        [] \<Rightarrow> None
      | l # ls \<Rightarrow> behaviour l (view_of s)) \<and>
   length (filter (\<lambda>e. e = Emit Update)
     (drop (length (trace s)) (trace (store_after (registerListener fn s))))) = 1 \<and>
   listeners (store_after (registerListener fn s)) = listeners s @ [fn] \<and>
   getSummary (store_after (registerListener fn s)) = getSummary s \<and>
   getGroupRooms (store_after (registerListener fn s)) = getGroupRooms s \<and>
   getGroupMembers (store_after (registerListener fn s)) = getGroupMembers s \<and>
   getGroupInvitedMembers (store_after (registerListener fn s)) = getGroupInvitedMembers s \<and>
   ready (store_after (registerListener fn s)) = ready s"
proof -
  let ?ls = "listeners s @ [fn]"
  let ?w = "view_of s"
  let ?r = "registerListener fn s"
  have th: "thrown_by ?r =
     (case dropWhile (\<lambda>l. behaviour l ?w = None) ?ls of [] \<Rightarrow> None | l # ls \<Rightarrow> behaviour l ?w)"
    by (simp only: thrown_by_registerListener deliver_thrown)
  have A: "(\<forall>l \<in> set ?ls. behaviour l ?w = None) \<longrightarrow>
      thrown_by ?r = None \<and>
      trace (store_after ?r) =
        trace s @ Emit Update # map (\<lambda>l. Invoke (callback_id l)) ?ls @
          [Request (next_id s) (GetGroupSummary (groupId s)),
           Request (next_id s + 1) (GetGroupRooms (groupId s)),
           Request (next_id s + 2) (GetGroupUsers (groupId s)),
           Request (next_id s + 3) (GetGroupInvitedUsers (groupId s))] \<and>
      pending (store_after ?r) =
        (pending s)(next_id s \<mapsto> OnFetch Summary, next_id s + 1 \<mapsto> OnFetch GroupRooms,
           next_id s + 2 \<mapsto> OnFetch GroupMembers,
           next_id s + 3 \<mapsto> OnFetch GroupInvitedMembers)"
  proof
    assume all: "\<forall>l \<in> set ?ls. behaviour l ?w = None"
    have d: "deliver ?ls ?w = (map (\<lambda>l. Invoke (callback_id l)) ?ls, None)"
      using all by (rule deliver_all_return)
    have e: "emit_update (s\<lparr>listeners := ?ls\<rparr>) =
        Inr (s\<lparr>listeners := ?ls,
               trace := trace s @ Emit Update # map (\<lambda>l. Invoke (callback_id l)) ?ls\<rparr>)"
      by (simp add: emit_update_def view_of_listeners d)
    show "thrown_by ?r = None \<and>
      trace (store_after ?r) =
        trace s @ Emit Update # map (\<lambda>l. Invoke (callback_id l)) ?ls @
          [Request (next_id s) (GetGroupSummary (groupId s)),
           Request (next_id s + 1) (GetGroupRooms (groupId s)),
           Request (next_id s + 2) (GetGroupUsers (groupId s)),
           Request (next_id s + 3) (GetGroupInvitedUsers (groupId s))] \<and>
      pending (store_after ?r) =
        (pending s)(next_id s \<mapsto> OnFetch Summary, next_id s + 1 \<mapsto> OnFetch GroupRooms,
           next_id s + 2 \<mapsto> OnFetch GroupMembers,
           next_id s + 3 \<mapsto> OnFetch GroupInvitedMembers)"
      by (simp add: registerListener_def e store_after_simps fetchMembers_def fetchRooms_def
          fetchSummary_def request_def numeral_3_eq_3)
  qed
  have B: "(\<exists>l \<in> set ?ls. behaviour l ?w \<noteq> None) \<longrightarrow>
      thrown_by ?r \<noteq> None \<and>
      trace (store_after ?r) =
        trace s @ Emit Update #
          map (\<lambda>l. Invoke (callback_id l))
            (takeWhile (\<lambda>l. behaviour l ?w = None) ?ls @
             take 1 (dropWhile (\<lambda>l. behaviour l ?w = None) ?ls)) \<and>
      pending (store_after ?r) = pending s \<and>
      next_id (store_after ?r) = next_id s"
  proof
    assume ex: "\<exists>l \<in> set ?ls. behaviour l ?w \<noteq> None"
    then have ne: "dropWhile (\<lambda>l. behaviour l ?w = None) ?ls \<noteq> []"
      by (auto simp: dropWhile_eq_Nil_conv)
    then obtain l ls' where dw: "dropWhile (\<lambda>l. behaviour l ?w = None) ?ls = l # ls'"
      by (cases "dropWhile (\<lambda>l. behaviour l ?w = None) ?ls") auto
    have "\<not> (behaviour l ?w = None)"
      using hd_dropWhile [OF ne] dw by simp
    with th dw have t: "thrown_by ?r \<noteq> None" by simp
    then have "thrown_by (emit_update (s\<lparr>listeners := ?ls\<rparr>)) \<noteq> None"
      by (simp add: thrown_by_registerListener thrown_by_emit_update view_of_listeners)
    then have sa: "store_after ?r = store_after (emit_update (s\<lparr>listeners := ?ls\<rparr>))"
      by (auto simp: store_after_registerListener)
    show "thrown_by ?r \<noteq> None \<and>
      trace (store_after ?r) =
        trace s @ Emit Update #
          map (\<lambda>l. Invoke (callback_id l))
            (takeWhile (\<lambda>l. behaviour l ?w = None) ?ls @
             take 1 (dropWhile (\<lambda>l. behaviour l ?w = None) ?ls)) \<and>
      pending (store_after ?r) = pending s \<and>
      next_id (store_after ?r) = next_id s"
      using t by (simp add: sa store_after_emit_update view_of_listeners deliver_calls)
  qed
  have tr: "trace (store_after ?r) =
      trace s @ Emit Update # fst (deliver ?ls ?w) @
        (case thrown_by ?r of
           None \<Rightarrow>
             [Request (next_id s) (GetGroupSummary (groupId s)),
              Request (next_id s + 1) (GetGroupRooms (groupId s)),
              Request (next_id s + 2) (GetGroupUsers (groupId s)),
              Request (next_id s + 3) (GetGroupInvitedUsers (groupId s))]
         | Some e \<Rightarrow> [])"
    by (simp add: store_after_registerListener store_after_emit_update thrown_by_emit_update
        thrown_by_registerListener view_of_listeners fetchMembers_def fetchRooms_def
        fetchSummary_def request_def split: option.splits)
  have one: "length (filter (\<lambda>e. e = Emit Update)
     (drop (length (trace s)) (trace (store_after ?r)))) = 1"
    by (simp add: tr deliver_no_update split: option.splits)
  have rest: "listeners (store_after ?r) = ?ls \<and>
     getSummary (store_after ?r) = getSummary s \<and>
     getGroupRooms (store_after ?r) = getGroupRooms s \<and>
     getGroupMembers (store_after ?r) = getGroupMembers s \<and>
     getGroupInvitedMembers (store_after ?r) = getGroupInvitedMembers s \<and>
     ready (store_after ?r) = ready s"
    by (simp add: registerListener_fields getSummary_def getGroupRooms_def
        getGroupMembers_def getGroupInvitedMembers_def)
  from A B th one rest show ?thesis by blast
qed

theorem registerListener_emits_then_fetches_witness:
  "trace (store_after (registerListener example_listener example_store)) =
     [Emit Update, Invoke 7,
      Request 0 (GetGroupSummary (JStr ''+test:example.org'')),
      Request 1 (GetGroupRooms (JStr ''+test:example.org'')),
      Request 2 (GetGroupUsers (JStr ''+test:example.org'')),
      Request 3 (GetGroupInvitedUsers (JStr ''+test:example.org''))] \<and>
   thrown_by (registerListener example_listener example_store) = None \<and>
   trace (store_after (registerListener throwing_listener example_store)) =
     [Emit Update, Invoke 9] \<and>
   pending (store_after (registerListener throwing_listener example_store)) = Map.empty"
proof -
  have a: "\<forall>l \<in> set (listeners example_store @ [example_listener]).
      behaviour l (view_of example_store) = None"
    by (simp add: example_defs op_defs)
  have b: "\<exists>l \<in> set (listeners example_store @ [throwing_listener]).
      behaviour l (view_of example_store) \<noteq> None"
    by (simp add: example_defs op_defs)
  have f: "listeners example_store = []" "trace example_store = []" "next_id example_store = 0"
    "groupId example_store = JStr ''+test:example.org''" "pending example_store = Map.empty"
    by (simp_all add: example_defs initial_def)
  have g: "callback_id example_listener = 7" "callback_id throwing_listener = 9"
    "behaviour throwing_listener (view_of example_store) \<noteq> None"
    by (simp_all add: example_defs)
  show ?thesis
    using a b registerListener_emits_then_fetches [of example_store example_listener]
      registerListener_emits_then_fetches [of example_store throwing_listener]
    by (simp add: f g)
qed

text \<open>
  C6. \<open>removeRoomFromGroup(roomId)\<close> issues the remove-room call and nothing else. When
  that call is resolved, the summary request and then the rooms request are issued and the
  returned promise is fulfilled. When it is rejected, nothing is issued, nothing of the
  chain remains pending, and the returned promise is rejected with that failure.
\<close>

theorem removeRoomFromGroup_refreshes_after_success:
  "fst (removeRoomFromGroup roomId s) = next_id s \<and>
   trace (snd (removeRoomFromGroup roomId s)) =
     trace s @ [Request (next_id s) (RemoveRoomFromGroup (groupId s) roomId)] \<and>
   signals (snd (removeRoomFromGroup roomId s)) = signals s \<and>
   trace (settle g (next_id s) (Resolved v) (snd (removeRoomFromGroup roomId s))) =
     trace s @
       [Request (next_id s) (RemoveRoomFromGroup (groupId s) roomId),
        Request (next_id s + 1) (GetGroupSummary (groupId s)),
        Request (next_id s + 2) (GetGroupRooms (groupId s))] \<and>
   pending (settle g (next_id s) (Resolved v) (snd (removeRoomFromGroup roomId s))) =
     (pending s)(next_id s := None, next_id s + 1 \<mapsto> OnFetch Summary,
        next_id s + 2 \<mapsto> OnFetch GroupRooms) \<and>
   signals (settle g (next_id s) (Resolved v) (snd (removeRoomFromGroup roomId s))) (next_id s) =
     Some (Resolved JUndefined) \<and>
   trace (settle g (next_id s) (Rejected err) (snd (removeRoomFromGroup roomId s))) =
     trace s @ [Request (next_id s) (RemoveRoomFromGroup (groupId s) roomId)] \<and>
   pending (settle g (next_id s) (Rejected err) (snd (removeRoomFromGroup roomId s))) =
     (pending s)(next_id s := None) \<and>
   signals (settle g (next_id s) (Rejected err) (snd (removeRoomFromGroup roomId s))) (next_id s) =
     Some (Rejected err)"
  by (simp add: removeRoomFromGroup_def mutation_def request_def settle_def on_mutation_def
      fetchSummary_def fetchRooms_def Let_def)

text \<open>
  C7. \<open>setGroupPublicity(isPublished)\<close> issues the publicity call and nothing else.
  When that call is resolved, the flair cache is invalidated for
  \<open>credentials.userId\<close> and then the summary request is issued. When it is rejected,
  nothing is invalidated or issued, nothing of the chain remains pending, and the returned
  promise is rejected. No action invalidates the flair cache except the resolution of a
  client promise whose chain holds the invalidating callback.
\<close>

theorem setGroupPublicity_invalidates_after_success:
  "fst (setGroupPublicity isPublished s) = next_id s \<and>
   trace (snd (setGroupPublicity isPublished s)) =
     trace s @ [Request (next_id s) (SetGroupPublicity (groupId s) isPublished)] \<and>
   trace (settle g (next_id s) (Resolved v) (snd (setGroupPublicity isPublished s))) =
     trace s @
       [Request (next_id s) (SetGroupPublicity (groupId s) isPublished),
        InvalidatePublicisedGroups (credentials_userId (matrixClient s)),
        Request (next_id s + 1) (GetGroupSummary (groupId s))] \<and>
   trace (settle g (next_id s) (Rejected err) (snd (setGroupPublicity isPublished s))) =
     trace s @ [Request (next_id s) (SetGroupPublicity (groupId s) isPublished)] \<and>
   pending (settle g (next_id s) (Rejected err) (snd (setGroupPublicity isPublished s))) =
     (pending s)(next_id s := None) \<and>
   signals (settle g (next_id s) (Rejected err) (snd (setGroupPublicity isPublished s)))
     (next_id s) = Some (Rejected err) \<and>
   (invalidations (trace (step g a s')) \<noteq> invalidations (trace s') \<longrightarrow>
      (\<exists>n w cbs. a = Settle n (Resolved w) \<and> pending s' n = Some (OnMutation cbs) \<and>
         InvalidateFlair \<in> set cbs))"
proof -
  have call: "fst (setGroupPublicity isPublished s) = next_id s \<and>
   trace (snd (setGroupPublicity isPublished s)) =
     trace s @ [Request (next_id s) (SetGroupPublicity (groupId s) isPublished)] \<and>
   trace (settle g (next_id s) (Resolved v) (snd (setGroupPublicity isPublished s))) =
     trace s @
       [Request (next_id s) (SetGroupPublicity (groupId s) isPublished),
        InvalidatePublicisedGroups (credentials_userId (matrixClient s)),
        Request (next_id s + 1) (GetGroupSummary (groupId s))] \<and>
   trace (settle g (next_id s) (Rejected err) (snd (setGroupPublicity isPublished s))) =
     trace s @ [Request (next_id s) (SetGroupPublicity (groupId s) isPublished)] \<and>
   pending (settle g (next_id s) (Rejected err) (snd (setGroupPublicity isPublished s))) =
     (pending s)(next_id s := None) \<and>
   signals (settle g (next_id s) (Rejected err) (snd (setGroupPublicity isPublished s)))
     (next_id s) = Some (Rejected err)"
    by (simp add: setGroupPublicity_def mutation_def request_def settle_def on_mutation_def
        fetchSummary_def Let_def)
  have only: "invalidations (trace (step g a s')) \<noteq> invalidations (trace s') \<longrightarrow>
      (\<exists>n w cbs. a = Settle n (Resolved w) \<and> pending s' n = Some (OnMutation cbs) \<and>
         InvalidateFlair \<in> set cbs)"
    by (auto simp: step_invalidations filter_empty_conv
        split: action.splits outcome.splits option.splits reaction.splits)
  from call only show ?thesis by blast
qed

theorem setGroupPublicity_invalidates_after_success_witness:
  "trace (settle example_groups 0 (Resolved JUndefined)
      (snd (setGroupPublicity (JBool True) example_store))) =
     [Request 0 (SetGroupPublicity (JStr ''+test:example.org'') (JBool True)),
      InvalidatePublicisedGroups (JStr ''@alice:example.org''),
      Request 1 (GetGroupSummary (JStr ''+test:example.org''))] \<and>
   trace (settle example_groups 0 (Rejected example_failure)
      (snd (setGroupPublicity (JBool True) example_store))) =
     [Request 0 (SetGroupPublicity (JStr ''+test:example.org'') (JBool True))] \<and>
   (\<exists>cbs. pending (snd (setGroupPublicity (JBool True) example_store)) 0 =
      Some (OnMutation cbs) \<and> InvalidateFlair \<in> set cbs)"
proof -
  let ?s1 = "snd (setGroupPublicity (JBool True) example_store)"
  have a: "invalidations (trace (step example_groups (Settle 0 (Resolved JUndefined)) ?s1)) \<noteq>
      invalidations (trace ?s1)"
    by (simp add: example_defs op_defs setGroupPublicity_def invalidations_simps)
  have f: "next_id example_store = 0" "trace example_store = []"
    "groupId example_store = JStr ''+test:example.org''"
    "credentials_userId (matrixClient example_store) = JStr ''@alice:example.org''"
    by (simp_all add: example_defs initial_def)
  note th = setGroupPublicity_invalidates_after_success
    [of "JBool True" example_store example_groups JUndefined example_failure
      "Settle 0 (Resolved JUndefined)" ?s1]
  from th a have "\<exists>n w cbs. Settle 0 (Resolved JUndefined) = Settle n (Resolved w) \<and>
      pending ?s1 n = Some (OnMutation cbs) \<and> InvalidateFlair \<in> set cbs"
    by blast
  then have 3: "\<exists>cbs. pending ?s1 0 = Some (OnMutation cbs) \<and> InvalidateFlair \<in> set cbs"
    by auto
  from th f have 1: "trace (settle example_groups 0 (Resolved JUndefined) ?s1) =
     [Request 0 (SetGroupPublicity (JStr ''+test:example.org'') (JBool True)),
      InvalidatePublicisedGroups (JStr ''@alice:example.org''),
      Request 1 (GetGroupSummary (JStr ''+test:example.org''))]"
    by simp
  from th f have 2: "trace (settle example_groups 0 (Rejected example_failure) ?s1) =
     [Request 0 (SetGroupPublicity (JStr ''+test:example.org'') (JBool True))]"
    by simp
  from 1 2 3 show ?thesis by blast
qed

text \<open>
  C8. The constructor throws for a group identifier that is absent (\<open>undefined\<close>,
  \<open>null\<close>) or empty, and for no truthy one. For every non-empty string it returns a
  store whose summary is \<open>{}\<close>, whose rooms, members and invited members are empty and
  whose readiness object has no property, so that all four flags read \<open>undefined\<close>.
\<close>

theorem constructor_requires_groupId:
  "(gid = JUndefined \<or> gid = JNull \<or> gid = JStr [] \<longrightarrow>
      constructor mc gid = Inl construction_error) \<and>
   (\<forall>n. gid = JStr n \<and> n \<noteq> [] \<longrightarrow>
      (\<exists>s. constructor mc gid = Inr s \<and> getSummary s = JObj [] \<and> getGroupRooms s = [] \<and>
           getGroupMembers s = [] \<and> getGroupInvitedMembers s = [] \<and> ready s = [] \<and>
           (\<forall>k. isStateReady (STATE_KEY k) s = JUndefined))) \<and>
   (constructor mc gid = Inl construction_error \<longleftrightarrow> \<not> truthy gid)"
  by (auto simp: constructor_def initial_def getSummary_def getGroupRooms_def
      getGroupMembers_def getGroupInvitedMembers_def isStateReady_def lookup_prop_def
      inherited_STATE_KEY)

theorem constructor_requires_groupId_witness:
  "constructor example_client JUndefined = Inl construction_error \<and>
   (\<exists>s. constructor example_client (JStr ''+test:example.org'') = Inr s \<and>
        getSummary s = JObj [] \<and> getGroupRooms s = [] \<and> getGroupMembers s = [] \<and>
        getGroupInvitedMembers s = [] \<and> ready s = [] \<and>
        (\<forall>k. isStateReady (STATE_KEY k) s = JUndefined))"
  using constructor_requires_groupId [of JUndefined example_client]
    constructor_requires_groupId [of "JStr ''+test:example.org''" example_client]
  by simp

text \<open>
  C9 as stated fails: once a summary with a \<open>user\<close> that has no \<open>is_publicised\<close> is
  loaded, \<open>getGroupPublicity()\<close> returns \<open>undefined\<close>, which is not \<open>null\<close>.
\<close>

theorem getGroupPublicity_absent_field_counterexample:
  "getSummary (run example_groups example_store summary_loaded) = example_summary \<and>
   get_prop example_summary ''user'' = Inr (JObj [(''is_privileged'', JBool True)]) \<and>
   getGroupPublicity (run example_groups example_store summary_loaded) = Inr JUndefined \<and>
   getGroupPublicity (run example_groups example_store summary_loaded) \<noteq> Inr JNull"
  by (simp add: example_defs op_defs)

text \<open>
  C9, amended. \<open>getGroupPublicity()\<close> returns \<open>null\<close> whenever the summary has no
  truthy \<open>user\<close>: before the summary is loaded, for a summary object without such a
  property, and for a summary that is a boolean, a number, a string or an array. For a
  summary with a truthy \<open>user\<close> it returns the \<open>is_publicised\<close> field of the user as it
  is, which is \<open>undefined\<close>, not \<open>null\<close>, when the user has no such field. For a
  summary that is \<open>undefined\<close> or \<open>null\<close> (the response of the backend is stored as it
  comes) it throws a TypeError. The same holds for \<open>isUserPrivileged()\<close> and
  \<open>is_privileged\<close>.
\<close>

theorem user_flags:
  "getGroupPublicity s =
     (case summary s of
        JUndefined \<Rightarrow> Inl type_error
      | JNull \<Rightarrow> Inl type_error
      | JObj ps \<Rightarrow>
          (case map_of ps ''user'' of
             None \<Rightarrow> Inr JNull
           | Some u \<Rightarrow> if truthy u then Inr (own_field u ''is_publicised'') else Inr JNull)
      | _ \<Rightarrow> Inr JNull) \<and>
   isUserPrivileged s =
     (case summary s of
        JUndefined \<Rightarrow> Inl type_error
      | JNull \<Rightarrow> Inl type_error
      | JObj ps \<Rightarrow>
          (case map_of ps ''user'' of
             None \<Rightarrow> Inr JNull
           | Some u \<Rightarrow> if truthy u then Inr (own_field u ''is_privileged'') else Inr JNull)
      | _ \<Rightarrow> Inr JNull) \<and>
   getGroupPublicity (initial mc gid) = Inr JNull \<and>
   isUserPrivileged (initial mc gid) = Inr JNull"
proof -
  have i: "inherited ''user'' = JUndefined" "inherited ''is_publicised'' = JUndefined"
    "inherited ''is_privileged'' = JUndefined"
    by (simp_all add: inherited_def object_prototype_keys_def)
  have f: "truthy u \<Longrightarrow> get_prop u ''is_publicised'' = Inr (own_field u ''is_publicised'')"
    "truthy u \<Longrightarrow> get_prop u ''is_privileged'' = Inr (own_field u ''is_privileged'')" for u
    by (cases u; simp add: lookup_prop_def i split: option.splits)+
  have g: "user_field fld s =
     (case summary s of
        JUndefined \<Rightarrow> Inl type_error
      | JNull \<Rightarrow> Inl type_error
      | JObj ps \<Rightarrow>
          (case map_of ps ''user'' of
             None \<Rightarrow> Inr JNull
           | Some u \<Rightarrow> if truthy u then get_prop u fld else Inr JNull)
      | _ \<Rightarrow> Inr JNull)" for fld
    by (cases "summary s") (simp_all add: user_field_def lookup_prop_def i split: option.splits)
  have p: "getGroupPublicity s =
     (case summary s of
        JUndefined \<Rightarrow> Inl type_error
      | JNull \<Rightarrow> Inl type_error
      | JObj ps \<Rightarrow>
          (case map_of ps ''user'' of
             None \<Rightarrow> Inr JNull
           | Some u \<Rightarrow> if truthy u then Inr (own_field u ''is_publicised'') else Inr JNull)
      | _ \<Rightarrow> Inr JNull)"
    by (simp add: getGroupPublicity_def g f split: jsval.splits option.splits)
  have q: "isUserPrivileged s =
     (case summary s of
        JUndefined \<Rightarrow> Inl type_error
      | JNull \<Rightarrow> Inl type_error
      | JObj ps \<Rightarrow>
          (case map_of ps ''user'' of
             None \<Rightarrow> Inr JNull
           | Some u \<Rightarrow> if truthy u then Inr (own_field u ''is_privileged'') else Inr JNull)
      | _ \<Rightarrow> Inr JNull)"
    by (simp add: isUserPrivileged_def g f split: jsval.splits option.splits)
  have n: "getGroupPublicity (initial mc gid) = Inr JNull"
    "isUserPrivileged (initial mc gid) = Inr JNull"
    by (simp_all add: getGroupPublicity_def isUserPrivileged_def user_field_def initial_def
        lookup_prop_def i)
  from p q n show ?thesis by blast
qed

theorem user_flags_witness:
  "getGroupPublicity (run example_groups example_store summary_loaded) = Inr JUndefined \<and>
   isUserPrivileged (run example_groups example_store summary_loaded) = Inr (JBool True) \<and>
   getGroupPublicity (run example_groups example_store summary_lost) = Inl type_error \<and>
   getGroupPublicity example_store = Inr JNull \<and> isUserPrivileged example_store = Inr JNull"
proof -
  have a: "summary (run example_groups example_store summary_loaded) =
      JObj [(''user'', JObj [(''is_privileged'', JBool True)])]"
    by (simp add: example_defs op_defs)
  have b: "summary (run example_groups example_store summary_lost) = JUndefined"
    by (simp add: example_defs op_defs summary_lost_def)
  have c: "summary example_store = JObj []"
    by (simp add: example_defs op_defs)
  show ?thesis
    using user_flags [of "run example_groups example_store summary_loaded"]
      user_flags [of "run example_groups example_store summary_lost"]
      user_flags [of example_store]
    by (simp add: a b c)
qed

text \<open>
  C10 as stated fails: \<open>toString\<close> is none of the four state keys, and on a new store
  \<open>isStateReady('toString')\<close> is the member that \<open>{}\<close> inherits, not \<open>undefined\<close>.
\<close>

theorem isStateReady_inherited_counterexample:
  "''toString'' \<notin> set (map STATE_KEY [GroupMembers, GroupInvitedMembers, Summary, GroupRooms]) \<and>
   isStateReady ''toString'' example_store = JBuiltin ''toString'' \<and>
   isStateReady ''toString'' example_store \<noteq> JUndefined"
  by (simp add: example_defs op_defs)

text \<open>
  C10, amended. In the store reached from construction by any history:
  \<open>isStateReady\<close> of a state key is \<open>undefined\<close> as long as no fetch of its slice has
  succeeded; of a key that is neither a state key nor a member of \<open>Object.prototype\<close> it
  is \<open>undefined\<close>; of a member of \<open>Object.prototype\<close> it is that member; it is
  \<open>true\<close> only for a state key whose slice has been fetched successfully; it is never
  \<open>false\<close>.
\<close>

theorem isStateReady_values:
  "(latest g k (initial mc gid) as = None \<longrightarrow>
      isStateReady (STATE_KEY k) (run g (initial mc gid) as) = JUndefined) \<and>
   ((\<forall>k. key \<noteq> STATE_KEY k) \<and> key \<notin> set object_prototype_keys \<longrightarrow>
      isStateReady key (run g (initial mc gid) as) = JUndefined) \<and>
   ((\<forall>k. key \<noteq> STATE_KEY k) \<and> key \<in> set object_prototype_keys \<longrightarrow>
      isStateReady key (run g (initial mc gid) as) = JBuiltin key) \<and>
   (isStateReady key (run g (initial mc gid) as) = JBool True \<longrightarrow>
      (\<exists>k. key = STATE_KEY k \<and> latest g k (initial mc gid) as \<noteq> None)) \<and>
   isStateReady key (run g (initial mc gid) as) \<noteq> JBool False"
proof -
  let ?s = "run g (initial mc gid) as"
  have init: "isStateReady key' (initial mc gid) = inherited key'" for key'
    by (simp add: isStateReady_def initial_def lookup_prop_def)
  have R: "isStateReady key' ?s =
      (if \<exists>k. key' = STATE_KEY k \<and> latest g k (initial mc gid) as \<noteq> None then JBool True
       else inherited key')" for key'
    by (simp only: run_isStateReady init)
  have 1: "latest g k (initial mc gid) as = None \<longrightarrow> isStateReady (STATE_KEY k) ?s = JUndefined"
    by (simp add: R STATE_KEY_inj inherited_STATE_KEY)
  have 2: "(\<forall>k. key \<noteq> STATE_KEY k) \<and> key \<notin> set object_prototype_keys \<longrightarrow>
      isStateReady key ?s = JUndefined"
    by (simp add: R inherited_def)
  have 3: "(\<forall>k. key \<noteq> STATE_KEY k) \<and> key \<in> set object_prototype_keys \<longrightarrow>
      isStateReady key ?s = JBuiltin key"
    by (simp add: R inherited_def)
  have 4: "isStateReady key ?s = JBool True \<longrightarrow>
      (\<exists>k. key = STATE_KEY k \<and> latest g k (initial mc gid) as \<noteq> None)"
    by (simp add: R inherited_def split: if_splits)
  have 5: "isStateReady key ?s \<noteq> JBool False"
    by (simp add: R inherited_def)
  from 1 2 3 4 5 show ?thesis by blast
qed

theorem isStateReady_values_witness:
  "isStateReady (STATE_KEY GroupRooms) (run example_groups example_store summary_loaded) = JUndefined \<and>
   isStateReady ''NoSuchKey'' (run example_groups example_store summary_loaded) = JUndefined \<and>
   isStateReady ''valueOf'' (run example_groups example_store summary_loaded) = JBuiltin ''valueOf'' \<and>
   isStateReady ''Summary'' (run example_groups example_store summary_loaded) = JBool True \<and>
   latest example_groups Summary example_store summary_loaded \<noteq> None"
proof -
  have a: "latest example_groups GroupRooms (initial example_client (JStr ''+test:example.org''))
      summary_loaded = None"
    by (simp add: example_defs op_defs)
  have b: "\<forall>k. ''NoSuchKey'' \<noteq> STATE_KEY k" "\<forall>k. ''valueOf'' \<noteq> STATE_KEY k"
    by (rule allI, case_tac k, simp_all)+
  have c: "isStateReady ''Summary'' (run example_groups example_store summary_loaded) = JBool True"
    by (simp add: example_defs op_defs)
  have d: "(\<exists>k. ''Summary'' = STATE_KEY k \<and> P k) \<longrightarrow> P Summary" for P
    by (metis STATE_KEY.simps(3) STATE_KEY_inj)
  show ?thesis
    using a b c
      isStateReady_values [of example_groups GroupRooms example_client "JStr ''+test:example.org''"
        summary_loaded "''NoSuchKey''"]
      isStateReady_values [of example_groups GroupRooms example_client "JStr ''+test:example.org''"
        summary_loaded "''valueOf''"]
      isStateReady_values [of example_groups GroupRooms example_client "JStr ''+test:example.org''"
        summary_loaded "''Summary''"]
      d [of "\<lambda>k. latest example_groups k (initial example_client (JStr ''+test:example.org''))
        summary_loaded \<noteq> None"]
    by (simp add: example_store_def object_prototype_keys_def)
qed

end
